theory Spec2Isabelle
  imports Main "HOL-Library.Word"
begin

unbundle bit_operations_syntax

section \<open>tcpy: timed, verified copy\<close>

text \<open>
  A shallow embedding of \<^verbatim>\<open>tcpy.c\<close> (version 3.0). Each C function is a HOL
  function of the same name. Machine integers whose wrap-around matters are words;
  the process-wide globals of the C file are fields of one record that every function
  takes and returns.
\<close>

subsection \<open>Constants\<close>

abbreviation ERROR_TCPY :: int where "ERROR_TCPY \<equiv> 1"
abbreviation ERROR_TCPY_USAGE :: int where "ERROR_TCPY_USAGE \<equiv> 2"
abbreviation ERROR_TCPY_MEM :: int where "ERROR_TCPY_MEM \<equiv> 3"
abbreviation ERROR_TCPY_CIRC :: int where "ERROR_TCPY_CIRC \<equiv> 4"
abbreviation ERROR_TCPY_STOP :: int where "ERROR_TCPY_STOP \<equiv> 5"

abbreviation COPYCOUNT :: int where "COPYCOUNT \<equiv> 50"
abbreviation LNBIGBUFFER :: nat where "LNBIGBUFFER \<equiv> 32768"
abbreviation LNSZ :: int where "LNSZ \<equiv> 300"

abbreviation TCPY_MODE_COPY :: int where "TCPY_MODE_COPY \<equiv> 0"
abbreviation TCPY_MODE_DEL :: int where "TCPY_MODE_DEL \<equiv> 1"
abbreviation TCPY_MODE_MIRROR :: int where "TCPY_MODE_MIRROR \<equiv> 2"

type_synonym byte = "8 word"

text \<open>\<^verbatim>\<open>TNSEC\<close> is \<^verbatim>\<open>unsigned long long\<close>: 64 bits, arithmetic modulo \<open>2 ^ 64\<close>.\<close>

type_synonym TNSEC = "64 word"

abbreviation ONESECINNANO :: TNSEC where "ONESECINNANO \<equiv> 1000000000"

subsection \<open>Level 1: ChecksumAdd\<close>

text \<open>
  One iteration of the loop of \<^verbatim>\<open>ChecksumAdd\<close>. The checksum is an
  \<^verbatim>\<open>unsigned long\<close>, whose width the C file does not fix (32 bits on ILP32
  targets, 64 bits on LP64 ones), so the width is the type parameter \<open>'a\<close>. The buffer
  holds \<^verbatim>\<open>char\<close>, converted with sign extension and then masked with
  \<^verbatim>\<open>0xFF\<close>.
\<close>

definition ChecksumStep :: "byte \<Rightarrow> 'a::len word \<Rightarrow> 'a word" where
  "ChecksumStep b c =
     (let iMsb = c AND 0x80000000;
          c1 = c XOR (scast b AND 0xFF);
          c2 = push_bit 1 c1
      in if iMsb \<noteq> 0 then c2 OR 1 else c2)"

text \<open>The loop \<^verbatim>\<open>while (iSize)\<close> over the \<^verbatim>\<open>iSize\<close> bytes of the buffer.\<close>

fun ChecksumAdd :: "byte list \<Rightarrow> 'a::len word \<Rightarrow> 'a word" where
  "ChecksumAdd [] c = c"
| "ChecksumAdd (b # bs) c = ChecksumAdd bs (ChecksumStep b c)"

text \<open>
  The checksum as the specification words it, to compare with the code: XOR the byte
  into a 32-bit state, then rotate the state left by one bit.
\<close>

definition spec_checksum_step :: "byte \<Rightarrow> 32 word \<Rightarrow> 32 word" where
  "spec_checksum_step b s = word_rotl 1 (s XOR ucast b)"

fun spec_checksum :: "byte list \<Rightarrow> 32 word \<Rightarrow> 32 word" where
  "spec_checksum [] s = s"
| "spec_checksum (b # bs) s = spec_checksum bs (spec_checksum_step b s)"

subsection \<open>The environment: files, keyboard, clock\<close>

text \<open>
  The program talks to its environment through system calls only. The environment is
  modelled by a small file system keyed by path name, a script of keyboard polls, a
  script of clock readings and a table of injected failures; every call the program
  makes is appended to a trace, so that what the program does (and in which order) can
  be stated.

  Assumptions of the model: no other process changes the files during the run; path
  names are compared as strings up to trailing slashes (no \<^verbatim>\<open>.\<close> or
  \<^verbatim>\<open>..\<close> components, no links); \<^verbatim>\<open>malloc\<close> succeeds; the fixed
  message buffers of \<^verbatim>\<open>LNSZ\<close> bytes are large enough (strings are unbounded
  here); \<^verbatim>\<open>read\<close> on an open regular file returns the next bytes, up to the
  requested count; \<^verbatim>\<open>mkdir\<close> does not check the parent (the program creates
  parents first).
\<close>

type_synonym mode_t = "16 word"

abbreviation S_IFMT :: mode_t where "S_IFMT \<equiv> 0xF000"
abbreviation S_IFDIR :: mode_t where "S_IFDIR \<equiv> 0x4000"
abbreviation S_IFREG :: mode_t where "S_IFREG \<equiv> 0x8000"
abbreviation DT_DIR :: "8 word" where "DT_DIR \<equiv> 4"
abbreviation DT_REG :: "8 word" where "DT_REG \<equiv> 8"

text \<open>A file or directory as the kernel stores it.\<close>

record node =
  n_mode :: mode_t
  n_dev :: nat
  n_ino :: nat
  n_mtim_sec :: int
  n_mtim_nsec :: int
  n_data :: "byte list"

text \<open>The fields of \<^verbatim>\<open>struct stat\<close> that the program reads.\<close>

record stat =
  st_mode :: mode_t
  st_dev :: nat
  st_ino :: nat
  st_size :: int
  st_mtim_sec :: int
  st_mtim_nsec :: int

datatype syscall =
    SysOpenRead string
  | SysOpendir string
  | SysMkdir string
  | SysUnlink string
  | SysCreat string
  | SysWrite string
  | SysUtimens string

datatype event =
    Echo string
  | Warning string
  | Usleep int
  | Nanosleep TNSEC TNSEC
  | OpenRead string
  | Opendir string
  | Mkdir string mode_t
  | Unlink string
  | Creat string mode_t
  | Write string "byte list"
  | Utimens string int int

text \<open>
  The state: first the global variables of \<^verbatim>\<open>tcpy.c\<close>, then the environment.
  \<open>faults\<close> gives the \<^verbatim>\<open>errno\<close> of a call that is to fail; \<open>garble\<close>
  is what the medium stores when asked to write a buffer (the identity on a healthy
  disk); \<open>keys\<close> holds the outcome of the next polls of standard input (\<open>None\<close>:
  nothing pending; after the script nothing is ever pending); \<open>clock\<close> gives the
  return value and the \<^verbatim>\<open>timespec\<close> of the \<open>n\<close>-th call of
  \<^verbatim>\<open>clock_gettime\<close>; \<open>now\<close> is the time stamp the kernel gives to a file
  it creates or writes; \<open>cur_dev\<close> and \<open>next_ino\<close> identify the next file it
  creates; \<open>uninit_stat\<close> is the content of a
  \<^verbatim>\<open>struct stat\<close> that nothing has written yet.
\<close>

record world =
  giFaster :: bool
  giFileCount :: int
  giPauseAfterVerif :: bool
  giTestRun :: bool
  gszErr :: string
  giNanoFastest :: TNSEC
  giNanoPrev :: TNSEC
  giCopyByteCount :: int
  giTotalByteCount :: int
  giSt_dev :: nat
  giSt_ino :: nat
  fs :: "(string \<times> node) list"
  faults :: "syscall \<Rightarrow> int option"
  garble :: "string \<Rightarrow> byte list \<Rightarrow> byte list"
  keys :: "int option list"
  clock :: "nat \<Rightarrow> int \<times> 64 word \<times> 64 word"
  ticks :: nat
  now :: "int \<times> int"
  next_ino :: nat
  cur_dev :: nat
  uninit_stat :: stat
  trace :: "event list"

text \<open>Path resolution: trailing slashes are dropped; the root directory has the key \<open>[]\<close>.\<close>

definition key_of :: "string \<Rightarrow> string" where
  "key_of p = rev (dropWhile (\<lambda>c. c = CHR ''/'') (rev p))"

definition is_dir :: "mode_t \<Rightarrow> bool" where
  "is_dir m = (m AND S_IFMT = S_IFDIR)"

definition stat_of :: "node \<Rightarrow> stat" where
  "stat_of n = \<lparr>st_mode = n_mode n, st_dev = n_dev n, st_ino = n_ino n,
                st_size = int (length (n_data n)),
                st_mtim_sec = n_mtim_sec n, st_mtim_nsec = n_mtim_nsec n\<rparr>"

text \<open>\<^verbatim>\<open>stat(2)\<close>: fails on the empty path, on a missing file, and on a path with a
  trailing slash that does not name a directory.\<close>

definition sys_stat :: "world \<Rightarrow> string \<Rightarrow> stat option" where
  "sys_stat w p =
     (if p = [] then None
      else case map_of (fs w) (key_of p) of
             None \<Rightarrow> None
           | Some n \<Rightarrow> if last p = CHR ''/'' \<and> \<not> is_dir (n_mode n) then None
                       else Some (stat_of n))"

text \<open>\<^verbatim>\<open>IFTODT\<close>: the \<^verbatim>\<open>d_type\<close> of a directory entry.\<close>

definition IFTODT :: "mode_t \<Rightarrow> 8 word" where
  "IFTODT m = ucast (drop_bit 12 (m AND S_IFMT))"

definition log_event :: "event \<Rightarrow> world \<Rightarrow> world" where
  "log_event e w = w\<lparr>trace := trace w @ [e]\<rparr>"

text \<open>
  Every system call below appends its event to the trace, whether it succeeds or not,
  and returns its result with the new state. A result \<open>Some e\<close> of a call that returns
  0 or \<open>-1\<close> in C is the failure with \<^verbatim>\<open>errno\<close> \<open>e\<close>.

  \<^verbatim>\<open>opendir\<close> followed by every \<^verbatim>\<open>readdir\<close>: the entries \<^verbatim>\<open>.\<close> and
  \<^verbatim>\<open>..\<close>, then the children in the order of the file system, as they are at the
  time of \<^verbatim>\<open>opendir\<close>.
\<close>

definition dir_entry :: "string \<Rightarrow> string \<times> node \<Rightarrow> (string \<times> 8 word) list" where
  "dir_entry prefix kn =
     (let name = drop (length prefix) (fst kn)
      in if take (length prefix) (fst kn) = prefix \<and> name \<noteq> [] \<and> CHR ''/'' \<notin> set name
         then [(name, IFTODT (n_mode (snd kn)))] else [])"

definition dir_listing :: "world \<Rightarrow> string \<Rightarrow> (string \<times> 8 word) list option" where
  "dir_listing w p =
     (case sys_stat w p of
        None \<Rightarrow> None
      | Some st \<Rightarrow>
          if \<not> is_dir (st_mode st) \<or> faults w (SysOpendir p) \<noteq> None then None
          else Some ((''.'', DT_DIR) # (''..'', DT_DIR)
                      # concat (map (dir_entry (key_of p @ ''/'')) (fs w))))"

definition sys_opendir :: "string \<Rightarrow> world \<Rightarrow> (string \<times> 8 word) list option \<times> world" where
  "sys_opendir p w = (dir_listing w p, log_event (Opendir p) w)"

text \<open>\<^verbatim>\<open>open(O_RDONLY)\<close> of a file: its bytes, or the \<^verbatim>\<open>errno\<close>.\<close>

definition file_bytes :: "world \<Rightarrow> string \<Rightarrow> int + byte list" where
  "file_bytes w p =
     (case faults w (SysOpenRead p) of
        Some e \<Rightarrow> Inl e
      | None \<Rightarrow> (case map_of (fs w) (key_of p) of
                   None \<Rightarrow> Inl 2
                 | Some n \<Rightarrow> if p = [] \<or> last p = CHR ''/'' then Inl 2 else Inr (n_data n)))"

definition sys_open_read :: "string \<Rightarrow> world \<Rightarrow> (int + byte list) \<times> world" where
  "sys_open_read p w = (file_bytes w p, log_event (OpenRead p) w)"

text \<open>The results of the successive \<^verbatim>\<open>read(fd, gpBigBuffer, LNBIGBUFFER)\<close> calls on
  a file, up to the first one that comes back short.\<close>

primrec read_seq :: "nat \<Rightarrow> byte list \<Rightarrow> byte list list" where
  "read_seq 0 dat = [take LNBIGBUFFER dat]"
| "read_seq (Suc k) dat = take LNBIGBUFFER dat # read_seq k (drop LNBIGBUFFER dat)"

definition sys_reads :: "byte list \<Rightarrow> byte list list" where
  "sys_reads dat = read_seq (length dat div LNBIGBUFFER) dat"

definition new_node :: "world \<Rightarrow> mode_t \<Rightarrow> node" where
  "new_node w m = \<lparr>n_mode = m, n_dev = cur_dev w, n_ino = next_ino w,
                   n_mtim_sec = fst (now w), n_mtim_nsec = snd (now w), n_data = []\<rparr>"

definition fs_put :: "string \<Rightarrow> node \<Rightarrow> (string \<times> node) list \<Rightarrow> (string \<times> node) list" where
  "fs_put k n al = (if k \<in> fst ` set al then map (\<lambda>kv. if fst kv = k then (k, n) else kv) al
                    else al @ [(k, n)])"

definition fs_remove :: "string \<Rightarrow> (string \<times> node) list \<Rightarrow> (string \<times> node) list" where
  "fs_remove k al = filter (\<lambda>kv. fst kv \<noteq> k) al"

text \<open>\<^verbatim>\<open>mkdir(2)\<close>.\<close>

definition sys_mkdir :: "string \<Rightarrow> mode_t \<Rightarrow> world \<Rightarrow> int option \<times> world" where
  "sys_mkdir p m w =
     (let w1 = log_event (Mkdir p m) w
      in case faults w (SysMkdir p) of
           Some e \<Rightarrow> (Some e, w1)
         | None \<Rightarrow>
             if p = [] then (Some 2, w1)
             else if map_of (fs w) (key_of p) \<noteq> None then (Some 17, w1)
             else (None, w1\<lparr>fs := fs_put (key_of p) (new_node w ((m AND 0xFFF) OR S_IFDIR)) (fs w),
                             next_ino := next_ino w + 1\<rparr>))"

text \<open>\<^verbatim>\<open>unlink(2)\<close>.\<close>

definition sys_unlink :: "string \<Rightarrow> world \<Rightarrow> int option \<times> world" where
  "sys_unlink p w =
     (let w1 = log_event (Unlink p) w
      in case faults w (SysUnlink p) of
           Some e \<Rightarrow> (Some e, w1)
         | None \<Rightarrow>
             (case map_of (fs w) (key_of p) of
                None \<Rightarrow> (Some 2, w1)
              | Some n \<Rightarrow>
                  if p = [] \<or> last p = CHR ''/'' \<or> is_dir (n_mode n) then (Some 1, w1)
                  else (None, w1\<lparr>fs := fs_remove (key_of p) (fs w)\<rparr>)))"

text \<open>\<^verbatim>\<open>open(O_WRONLY|O_CREAT|O_TRUNC, mode)\<close>.\<close>

definition sys_creat :: "string \<Rightarrow> mode_t \<Rightarrow> world \<Rightarrow> int option \<times> world" where
  "sys_creat p m w =
     (let w1 = log_event (Creat p m) w
      in case faults w (SysCreat p) of
           Some e \<Rightarrow> (Some e, w1)
         | None \<Rightarrow>
             if p = [] \<or> last p = CHR ''/'' then (Some 21, w1)
             else (case map_of (fs w) (key_of p) of
                     None \<Rightarrow>
                       (None, w1\<lparr>fs := fs_put (key_of p)
                                           (new_node w ((m AND 0xFFF) OR S_IFREG)) (fs w),
                                  next_ino := next_ino w + 1\<rparr>)
                   | Some n \<Rightarrow>
                       if is_dir (n_mode n) then (Some 21, w1)
                       else (None, w1\<lparr>fs := fs_put (key_of p)
                                                (n\<lparr>n_mtim_sec := fst (now w),
                                                   n_mtim_nsec := snd (now w), n_data := []\<rparr>)
                                                (fs w)\<rparr>)))"

text \<open>\<^verbatim>\<open>write(fd, buf, n)\<close> on the file opened at \<open>p\<close>: the count written, or
  \<open>-1\<close>.\<close>

definition sys_write :: "string \<Rightarrow> byte list \<Rightarrow> world \<Rightarrow> int \<times> world" where
  "sys_write p buf w =
     (let w1 = log_event (Write p buf) w
      in case faults w (SysWrite p) of
           Some e \<Rightarrow> (-1, w1)
         | None \<Rightarrow>
             (case map_of (fs w) (key_of p) of
                None \<Rightarrow> (-1, w1)
              | Some n \<Rightarrow>
                  (int (length buf),
                   w1\<lparr>fs := fs_put (key_of p)
                               (n\<lparr>n_mtim_sec := fst (now w), n_mtim_nsec := snd (now w),
                                  n_data := n_data n @ garble w p buf\<rparr>) (fs w)\<rparr>)))"

text \<open>\<^verbatim>\<open>utimensat\<close> with \<^verbatim>\<open>UTIME_OMIT\<close> for the access time.\<close>

definition sys_utimens :: "string \<Rightarrow> int \<Rightarrow> int \<Rightarrow> world \<Rightarrow> int option \<times> world" where
  "sys_utimens p sec nsec w =
     (let w1 = log_event (Utimens p sec nsec) w
      in case faults w (SysUtimens p) of
           Some e \<Rightarrow> (Some e, w1)
         | None \<Rightarrow>
             (case map_of (fs w) (key_of p) of
                None \<Rightarrow> (Some 2, w1)
              | Some n \<Rightarrow>
                  (None, w1\<lparr>fs := fs_put (key_of p)
                                     (n\<lparr>n_mtim_sec := sec, n_mtim_nsec := nsec\<rparr>) (fs w)\<rparr>)))"

subsection \<open>Level 1: general purpose functions\<close>

text \<open>Decimal and octal digits, for the \<^verbatim>\<open>%d\<close>, \<^verbatim>\<open>%ld\<close> and
  \<^verbatim>\<open>%o\<close> conversions of \<^verbatim>\<open>sprintf\<close>.\<close>

fun dec_nat :: "nat \<Rightarrow> string" where
  "dec_nat n = (if n < 10 then [''0123456789'' ! n]
                else dec_nat (n div 10) @ [''0123456789'' ! (n mod 10)])"

declare dec_nat.simps [simp del]

fun oct_nat :: "nat \<Rightarrow> string" where
  "oct_nat n = (if n < 8 then [''01234567'' ! n]
                else oct_nat (n div 8) @ [''01234567'' ! (n mod 8)])"

declare oct_nat.simps [simp del]

definition dec :: "int \<Rightarrow> string" where
  "dec i = (if i < 0 then CHR ''-'' # dec_nat (nat (- i)) else dec_nat (nat i))"

definition EchoPrint :: "string \<Rightarrow> world \<Rightarrow> world" where
  "EchoPrint pSz w = log_event (Echo pSz) w"

text \<open>
  The \<^verbatim>\<open>do ... while (!iErr && iPause)\<close> loop of \<^verbatim>\<open>KeyboardCheck\<close>, one
  equation per outcome of \<^verbatim>\<open>select\<close>. The result \<open>None\<close> means that the loop
  never ends: the pause is on and no key ever comes. The keys are 32 (space), 112 and 80
  (p, P); 27 (escape), 113 and 81 (q, Q); 118 and 86 (v, V).
\<close>

fun KeyboardLoop :: "int option list \<Rightarrow> bool \<Rightarrow> world \<Rightarrow> int option \<times> world" where
  "KeyboardLoop [] iPause w =
     (if iPause then (None, w\<lparr>keys := []\<rparr>) else (Some 0, w\<lparr>keys := []\<rparr>))"
| "KeyboardLoop (None # ks) iPause w =
     (if iPause then KeyboardLoop ks iPause w else (Some 0, w\<lparr>keys := ks\<rparr>))"
| "KeyboardLoop (Some i # ks) iPause w =
     (let toggle = (i = 32 \<or> i = 112 \<or> i = 80);
          quit = (i = 27 \<or> i = 113 \<or> i = 81);
          verif = (i = 118 \<or> i = 86);
          iPause1 = (if toggle then \<not> iPause else iPause);
          w1 = (if toggle then EchoPrint (if iPause1 then ''Pause...'' else ''Resume...'') w
                else if quit then w
                else if verif then EchoPrint ''Pause Requested!'' (w\<lparr>giPauseAfterVerif := True\<rparr>)
                else w);
          iErr = (if \<not> toggle \<and> quit then ERROR_TCPY_STOP else 0);
          w2 = (if iPause1 then log_event (Usleep 3000) w1 else w1)
      in if iErr = 0 \<and> iPause1 then KeyboardLoop ks iPause1 w2
         else (Some iErr, w2\<lparr>keys := ks\<rparr>))"

definition KeyboardCheck :: "int \<Rightarrow> world \<Rightarrow> int option \<times> world" where
  "KeyboardCheck iInducedPause w =
     (let w1 = (if iInducedPause \<noteq> 0 then EchoPrint ''Pause...'' w else w)
      in KeyboardLoop (keys w1) (iInducedPause \<noteq> 0) w1)"

text \<open>
  \<^verbatim>\<open>NanoTime\<close>, as a function of what \<^verbatim>\<open>clock_gettime\<close> returned and left
  in the \<^verbatim>\<open>timespec\<close>. The C test is \<^verbatim>\<open>if (clock_gettime(...))\<close>, which
  holds when the return value is not zero. When the call fails the \<^verbatim>\<open>timespec\<close>
  holds whatever the stack held; the multiplication is modelled modulo \<open>2 ^ 64\<close>.
\<close>

definition NanoTime_of :: "int \<times> 64 word \<times> 64 word \<Rightarrow> TNSEC" where
  "NanoTime_of r = (case r of (rc, tv_sec, tv_nsec) \<Rightarrow>
                      if rc \<noteq> 0 then tv_sec * ONESECINNANO + tv_nsec else 0)"

definition NanoTime :: "world \<Rightarrow> TNSEC \<times> world" where
  "NanoTime w = (NanoTime_of (clock w (ticks w)), w\<lparr>ticks := ticks w + 1\<rparr>)"

text \<open>\<^verbatim>\<open>StringShortner\<close>; every call passes a positive \<^verbatim>\<open>iMax\<close>, where the
  truncating division of C and \<open>div\<close> agree.\<close>

definition StringShortner :: "string \<Rightarrow> int \<Rightarrow> string" where
  "StringShortner pLongSz iMax =
     (let i = int (length pLongSz)
      in if i < iMax then pLongSz
         else (let iMax1 = (if i \<le> iMax + 5 then iMax - 5 else iMax);
                   iMax2 = iMax1 div 2
               in take (nat iMax2) pLongSz @ '' ... '' @ drop (nat (i - iMax2)) pLongSz))"

subsection \<open>Level 2: directory and file functions\<close>

definition stat_into :: "world \<Rightarrow> string \<Rightarrow> stat \<Rightarrow> stat" where
  "stat_into w p buf = (case sys_stat w p of None \<Rightarrow> buf | Some st \<Rightarrow> st)"

text \<open>\<^verbatim>\<open>DirectoryExist\<close> and \<^verbatim>\<open>FilenameExist\<close> take the buffer that
  \<^verbatim>\<open>stat\<close> fills and return it with the answer.\<close>

definition DirectoryExist :: "world \<Rightarrow> string \<Rightarrow> stat \<Rightarrow> bool \<times> stat" where
  "DirectoryExist w szPathname buf =
     (case sys_stat w szPathname of
        None \<Rightarrow> (False, buf)
      | Some st \<Rightarrow> (st_mode st AND S_IFDIR \<noteq> 0, st))"

definition FilenameExist :: "world \<Rightarrow> string \<Rightarrow> stat \<Rightarrow> bool \<times> stat" where
  "FilenameExist w szPathname buf =
     (case sys_stat w szPathname of
        None \<Rightarrow> (False, buf)
      | Some st \<Rightarrow> (st_mode st AND S_IFREG \<noteq> 0, st))"

text \<open>The loop \<^verbatim>\<open>while (i && pSzDirname[i] != '/') i--\<close>; the byte at index
  \<open>length s\<close> is the terminating zero.\<close>

fun scan_slash :: "string \<Rightarrow> nat \<Rightarrow> nat" where
  "scan_slash s 0 = 0"
| "scan_slash s (Suc i) =
     (if Suc i < length s \<and> s ! Suc i = CHR ''/'' then Suc i else scan_slash s i)"

text \<open>The last step of \<^verbatim>\<open>DirectoryValidate\<close>: announce and create the directory
  with the mode found in the buffer.\<close>

definition DirectoryValidate_mkdir :: "string \<Rightarrow> stat \<Rightarrow> world \<Rightarrow> int \<times> stat \<times> world" where
  "DirectoryValidate_mkdir pSzDirname buf w =
     (let sz = StringShortner pSzDirname (LNSZ - 40);
          w1 = EchoPrint (''mkdir('' @ sz @ '', Mode=0'' @ oct_nat (unat (st_mode buf)) @ '')'') w;
          r = sys_mkdir pSzDirname (st_mode buf) w1
      in case fst r of
           Some e \<Rightarrow> (ERROR_TCPY, buf,
                      (snd r)\<lparr>gszErr := ''Could Not Create '' @ sz
                                          @ '' (errno='' @ dec e @ '')''\<rparr>)
         | None \<Rightarrow> (0, stat_into (snd r) pSzDirname buf, snd r))"

definition zero_stat :: stat where
  "zero_stat = \<lparr>st_mode = 0, st_dev = 0, st_ino = 0, st_size = 0,
                 st_mtim_sec = 0, st_mtim_nsec = 0\<rparr>"

text \<open>\<^verbatim>\<open>DirectoryValidate\<close>, with the \<^verbatim>\<open>stat\<close> buffer passed in and
  returned. It does not look at \<^verbatim>\<open>giTestRun\<close>.\<close>

function DirectoryValidate :: "string \<Rightarrow> stat \<Rightarrow> world \<Rightarrow> int \<times> stat \<times> world" where
  "DirectoryValidate szPathname buf w =
     (if szPathname = [] then (0, zero_stat, w)
      else case DirectoryExist w szPathname buf of
        (True, buf1) \<Rightarrow> (0, buf1, w)
      | (False, buf1) \<Rightarrow>
          (let pSzDirname = (if last szPathname = CHR ''/'' then butlast szPathname
                             else szPathname);
               i = scan_slash pSzDirname (length pSzDirname)
           in if i < length pSzDirname \<and> pSzDirname ! i = CHR ''/'' then
                (if i \<noteq> 0 then
                   (case DirectoryValidate (take i pSzDirname) buf1 w of
                      (iErr, buf2, w2) \<Rightarrow>
                        if iErr = 0 then DirectoryValidate_mkdir pSzDirname buf2 w2
                        else (iErr, buf2, w2))
                 else DirectoryValidate_mkdir pSzDirname (stat_into w ''/'' buf1) w)
              else DirectoryValidate_mkdir pSzDirname (stat_into w ''.'' buf1) w))"
  by pat_completeness auto
termination
  by (relation "measure (\<lambda>(p, b, w). length p)") auto

declare DirectoryValidate.simps [simp del]

text \<open>
  A function that may not return gives \<open>(None, w)\<close>, with the state it had reached;
  \<open>andthen\<close> runs the next step only after a step that returned.
\<close>

definition andthen ::
  "'a option \<times> world \<Rightarrow> ('a \<Rightarrow> world \<Rightarrow> 'b option \<times> world) \<Rightarrow> 'b option \<times> world" where
  "andthen r f = (case r of (None, w) \<Rightarrow> (None, w) | (Some a, w) \<Rightarrow> f a w)"

text \<open>The checksum variables are \<^verbatim>\<open>unsigned long\<close>; from here on the width is that
  of an LP64 target such as FreeBSD/amd64.\<close>

type_synonym ulong = "64 word"

text \<open>The \<^verbatim>\<open>do ... while (iRead == LNBIGBUFFER && !iErr)\<close> loop of
  \<^verbatim>\<open>FilenameChecksum\<close> over the results of \<^verbatim>\<open>read\<close>; the empty list is a
  \<^verbatim>\<open>read\<close> that returns 0.\<close>

fun FilenameChecksum_loop ::
  "byte list list \<Rightarrow> ulong \<Rightarrow> world \<Rightarrow> (int \<times> ulong) option \<times> world" where
  "FilenameChecksum_loop [] chk w =
     andthen (KeyboardCheck 0 w) (\<lambda>iErr w1. (Some (iErr, chk), w1))"
| "FilenameChecksum_loop (buf # rest) chk w =
     andthen (KeyboardCheck 0 w) (\<lambda>iErr w1.
       if length buf = LNBIGBUFFER \<and> iErr = 0
       then FilenameChecksum_loop rest (if 0 < length buf then ChecksumAdd buf chk else chk) w1
       else (Some (iErr, if 0 < length buf then ChecksumAdd buf chk else chk), w1))"

definition FilenameChecksum :: "string \<Rightarrow> world \<Rightarrow> (int \<times> ulong) option \<times> world" where
  "FilenameChecksum szFilename w =
     (let r = sys_open_read szFilename w
      in case fst r of
           Inl e \<Rightarrow> (Some (ERROR_TCPY, 0),
                     (snd r)\<lparr>gszErr := ''Could Not Open '' @ StringShortner szFilename (LNSZ - 50)
                                         @ '' (errno='' @ dec e @ '')''\<rparr>)
         | Inr dat \<Rightarrow> FilenameChecksum_loop (sys_reads dat) 0 (snd r))"

subsection \<open>Level 3: TimedCopyFile\<close>

text \<open>The local variables of \<^verbatim>\<open>TimedCopyFile\<close> that live across its steps.\<close>

record locals =
  iErr :: int
  iExistDest :: bool
  sStatSource :: stat
  sStatDest :: stat
  iSourceChecksum :: ulong
  iDestChecksum :: ulong

text \<open>Lines 515 to 535: probe both files; an absent destination gets size 0 and
  modification time 0.\<close>

definition TimedCopyFile_probe :: "string \<Rightarrow> string \<Rightarrow> world \<Rightarrow> locals \<times> world" where
  "TimedCopyFile_probe szSourceFilename szDestFilename w =
     (let szSource = StringShortner szSourceFilename (LNSZ - 80);
          src = FilenameExist w szSourceFilename (uninit_stat w);
          w1 = (if \<not> fst src then w\<lparr>gszErr := ''File '' @ szSource @ '' Not Found!''\<rparr> else w);
          dst = FilenameExist w1 szDestFilename (uninit_stat w)
      in (\<lparr>iErr = (if \<not> fst src then ERROR_TCPY else 0),
           iExistDest = fst dst,
           sStatSource = snd src,
           sStatDest = (if \<not> fst dst
                        then (snd dst)\<lparr>st_size := 0, st_mtim_sec := 0, st_mtim_nsec := 0\<rparr>
                        else snd dst),
           iSourceChecksum = 0, iDestChecksum = 0\<rparr>, w1))"

text \<open>Lines 537 to 548: checksum both files when the sizes are equal and not zero.\<close>

definition TimedCopyFile_compare ::
  "string \<Rightarrow> string \<Rightarrow> locals \<Rightarrow> world \<Rightarrow> locals option \<times> world" where
  "TimedCopyFile_compare szSourceFilename szDestFilename l w =
     (if iErr l = 0 \<and> st_size (sStatSource l) \<noteq> 0 \<and> st_size (sStatDest l) \<noteq> 0
         \<and> st_size (sStatSource l) = st_size (sStatDest l)
      then (let w1 = EchoPrint (''Verify '' @ StringShortner szSourceFilename (LNSZ - 80) @ '' to ''
                                 @ StringShortner szDestFilename (LNSZ - 80)) w
            in if \<not> giTestRun w1
               then andthen (FilenameChecksum szSourceFilename w1) (\<lambda>r w2.
                      if fst r = 0
                      then andthen (FilenameChecksum szDestFilename w2) (\<lambda>r2 w3.
                             (Some (l\<lparr>iErr := fst r2, iSourceChecksum := snd r,
                                      iDestChecksum := snd r2\<rparr>), w3))
                      else (Some (l\<lparr>iErr := fst r, iSourceChecksum := snd r\<rparr>), w2))
               else (Some l, w1))
      else (Some l, w))"

text \<open>The condition of line 550, without its \<^verbatim>\<open>!iErr\<close>.\<close>

definition TimedCopyFile_differs :: "locals \<Rightarrow> bool" where
  "TimedCopyFile_differs l =
     (st_size (sStatSource l) \<noteq> st_size (sStatDest l)
      \<or> st_mtim_sec (sStatSource l) \<noteq> st_mtim_sec (sStatDest l)
      \<or> st_mtim_nsec (sStatSource l) \<noteq> st_mtim_nsec (sStatDest l)
      \<or> iSourceChecksum l \<noteq> iDestChecksum l)"

text \<open>Lines 559 to 569: the line that announces the deletion of the destination.\<close>

definition TimedCopyFile_diffline :: "string \<Rightarrow> locals \<Rightarrow> string" where
  "TimedCopyFile_diffline szDest l =
     ''Delete '' @ szDest @ '' (diff''
     @ (if st_size (sStatSource l) \<noteq> st_size (sStatDest l)
        then '' '' @ dec (st_size (sStatDest l) - st_size (sStatSource l)) @ '' bytes'' else [])
     @ (if st_mtim_sec (sStatSource l) \<noteq> st_mtim_sec (sStatDest l) then '' sec'' else [])
     @ (if st_mtim_nsec (sStatSource l) \<noteq> st_mtim_nsec (sStatDest l) then '' nsec'' else [])
     @ (if iSourceChecksum l \<noteq> iDestChecksum l then '' chk'' else [])
     @ '')''"

text \<open>Lines 557 to 578.\<close>

definition TimedCopyFile_delete :: "string \<Rightarrow> locals \<Rightarrow> world \<Rightarrow> locals \<times> world" where
  "TimedCopyFile_delete szDestFilename l w =
     (if iExistDest l
      then (let szDest = StringShortner szDestFilename (LNSZ - 80);
                w1 = EchoPrint (TimedCopyFile_diffline szDest l) w
            in if \<not> giTestRun w1
               then (let r = sys_unlink szDestFilename w1
                     in case fst r of
                          Some e \<Rightarrow> (l\<lparr>iErr := ERROR_TCPY\<rparr>,
                                     (snd r)\<lparr>gszErr := ''Could Not Delete '' @ szDest
                                                         @ '' (errno='' @ dec e @ '')''\<rparr>)
                        | None \<Rightarrow> (l, snd r))
               else (l, w1))
      else (l, w))"

text \<open>Lines 615 to 617: the delay before the next write.\<close>

definition TimedCopyFile_delay :: "world \<Rightarrow> nat \<Rightarrow> TNSEC" where
  "TimedCopyFile_delay w iRead =
     (let iNano = giNanoPrev w - giNanoFastest w
      in if iRead \<noteq> LNBIGBUFFER then (iNano * of_nat iRead) div of_nat LNBIGBUFFER else iNano)"

text \<open>Lines 615 to 621.\<close>

definition TimedCopyFile_slowdown :: "nat \<Rightarrow> world \<Rightarrow> world" where
  "TimedCopyFile_slowdown iRead w =
     (let iNano = TimedCopyFile_delay w iRead
      in if \<not> giFaster w
         then log_event (Nanosleep (iNano div ONESECINNANO) (iNano mod ONESECINNANO)) w
         else w)"

text \<open>Lines 627 to 631, from the difference of the two \<^verbatim>\<open>NanoTime\<close> readings.\<close>

definition TimedCopyFile_timing :: "TNSEC \<Rightarrow> nat \<Rightarrow> world \<Rightarrow> world" where
  "TimedCopyFile_timing elapsed iRead w =
     (let prev = (if iRead \<noteq> LNBIGBUFFER then (elapsed * of_nat LNBIGBUFFER) div of_nat iRead
                  else elapsed)
      in w\<lparr>giNanoPrev := prev,
           giNanoFastest := (if giNanoFastest w = 0 \<or> prev < giNanoFastest w then prev
                             else giNanoFastest w)\<rparr>)"

text \<open>Lines 611 to 638: one buffer with \<^verbatim>\<open>iRead > 0\<close>.\<close>

definition TimedCopyFile_write ::
  "string \<Rightarrow> byte list \<Rightarrow> locals \<Rightarrow> world \<Rightarrow> locals \<times> world" where
  "TimedCopyFile_write szDestFilename buf l w =
     (let iRead = length buf;
          w1 = w\<lparr>giCopyByteCount := giCopyByteCount w + int iRead,
                 giTotalByteCount := giTotalByteCount w + int iRead\<rparr>;
          w2 = TimedCopyFile_slowdown iRead w1;
          l1 = l\<lparr>iDestChecksum := ChecksumAdd buf (iDestChecksum l)\<rparr>;
          t0 = NanoTime w2;
          wr = sys_write szDestFilename buf (snd t0);
          t1 = NanoTime (snd wr);
          w3 = TimedCopyFile_timing (fst t1 - fst t0) iRead (snd t1)
      in if fst wr \<noteq> int iRead
         then (l1\<lparr>iErr := ERROR_TCPY\<rparr>,
               w3\<lparr>gszErr := ''Write to file '' @ StringShortner szDestFilename (LNSZ - 80)
                              @ '' Failed (errno=''
                              @ dec (case faults w (SysWrite szDestFilename) of
                                       Some e \<Rightarrow> e | None \<Rightarrow> 9) @ '')''\<rparr>)
         else (l1, w3))"

text \<open>Lines 608 to 642: one iteration of the copy loop.\<close>

definition TimedCopyFile_iter ::
  "string \<Rightarrow> byte list \<Rightarrow> locals \<Rightarrow> world \<Rightarrow> locals option \<times> world" where
  "TimedCopyFile_iter szDestFilename buf l w =
     (let lw = (if 0 < length buf then TimedCopyFile_write szDestFilename buf l w else (l, w))
      in if iErr (fst lw) = 0
         then andthen (KeyboardCheck 0 (snd lw)) (\<lambda>e w2. (Some ((fst lw)\<lparr>iErr := e\<rparr>), w2))
         else (Some (fst lw), snd lw))"

text \<open>Lines 606 to 643: the copy loop over the results of \<^verbatim>\<open>read\<close>.\<close>

fun TimedCopyFile_loop ::
  "byte list list \<Rightarrow> string \<Rightarrow> locals \<Rightarrow> world \<Rightarrow> locals option \<times> world" where
  "TimedCopyFile_loop [] szDestFilename l w = TimedCopyFile_iter szDestFilename [] l w"
| "TimedCopyFile_loop (buf # rest) szDestFilename l w =
     andthen (TimedCopyFile_iter szDestFilename buf l w) (\<lambda>l1 w1.
       if length buf = LNBIGBUFFER \<and> iErr l1 = 0
       then TimedCopyFile_loop rest szDestFilename l1 w1
       else (Some l1, w1))"

text \<open>\<^verbatim>\<open>unlink\<close> of the destination after a failure; when it fails a warning is
  printed and nothing else happens (lines 665 to 667 and 710 to 712).\<close>

definition TimedCopyFile_discard :: "string \<Rightarrow> world \<Rightarrow> world" where
  "TimedCopyFile_discard szDestFilename w =
     (let r = sys_unlink szDestFilename w
      in case fst r of
           Some e \<Rightarrow> log_event (Warning (''WARNING: Failed to delete ''
                                         @ StringShortner szDestFilename (LNSZ - 80)
                                         @ '' (errno='' @ dec e @ '')'')) (snd r)
         | None \<Rightarrow> snd r)"

text \<open>Lines 587 to 648: open both files and run the loop.\<close>

definition TimedCopyFile_transfer ::
  "string \<Rightarrow> string \<Rightarrow> locals \<Rightarrow> world \<Rightarrow> locals option \<times> world" where
  "TimedCopyFile_transfer szSourceFilename szDestFilename l w =
     (let r = sys_open_read szSourceFilename w
      in case fst r of
           Inl e \<Rightarrow> (Some (l\<lparr>iErr := ERROR_TCPY\<rparr>),
                     (snd r)\<lparr>gszErr := ''Could Not Open ''
                                         @ StringShortner szSourceFilename (LNSZ - 80)
                                         @ '' (errno='' @ dec e @ '')''\<rparr>)
         | Inr dat \<Rightarrow>
             (let c = sys_creat szDestFilename (st_mode (sStatSource l)) (snd r)
              in case fst c of
                   Some e \<Rightarrow> (Some (l\<lparr>iErr := ERROR_TCPY\<rparr>),
                              (snd c)\<lparr>gszErr := ''Could Not Create ''
                                                  @ StringShortner szDestFilename (LNSZ - 80)
                                                  @ '' (errno='' @ dec e @ '')''\<rparr>)
                 | None \<Rightarrow> TimedCopyFile_loop (sys_reads dat) szDestFilename l (snd c)))"

text \<open>Lines 650 to 662: the checksum of what was read against the source checksum of
  the comparison, when that one is not zero.\<close>

definition TimedCopyFile_check :: "string \<Rightarrow> locals \<Rightarrow> world \<Rightarrow> locals \<times> world" where
  "TimedCopyFile_check szSourceFilename l w =
     (if iErr l = 0
      then (if iSourceChecksum l \<noteq> 0
            then (if iSourceChecksum l \<noteq> iDestChecksum l
                  then (l\<lparr>iErr := ERROR_TCPY\<rparr>,
                        w\<lparr>gszErr := ''Source '' @ StringShortner szSourceFilename (LNSZ - 80)
                                       @ '' Check Failed!''\<rparr>)
                  else (l, w))
            else (l\<lparr>iSourceChecksum := iDestChecksum l\<rparr>, w))
      else (l, w))"

text \<open>Lines 670 to 694, without the block under \<^verbatim>\<open>_WANT_FREEBSD11_STAT\<close>, which the
  file does not define.\<close>

definition TimedCopyFile_retime ::
  "string \<Rightarrow> string \<Rightarrow> locals \<Rightarrow> world \<Rightarrow> locals \<times> world" where
  "TimedCopyFile_retime szSourceFilename szDestFilename l w =
     (if iErr l = 0
      then (let r = sys_utimens szDestFilename (st_mtim_sec (sStatSource l))
                      (st_mtim_nsec (sStatSource l)) w
            in case fst r of
                 Some e \<Rightarrow> (l\<lparr>iErr := ERROR_TCPY\<rparr>,
                            (snd r)\<lparr>gszErr := ''Time Set of ''
                                                @ StringShortner szSourceFilename (LNSZ - 80)
                                                @ '' Failed!''\<rparr>)
               | None \<Rightarrow> (l, snd r))
      else (l, w))"

text \<open>Lines 581 to 695: the copy operation.\<close>

definition TimedCopyFile_copy ::
  "string \<Rightarrow> string \<Rightarrow> locals \<Rightarrow> world \<Rightarrow> locals option \<times> world" where
  "TimedCopyFile_copy szSourceFilename szDestFilename l w =
     (let w1 = EchoPrint (''Copy '' @ StringShortner szSourceFilename (LNSZ - 80) @ '' to ''
                           @ StringShortner szDestFilename (LNSZ - 80)) w;
          l1 = l\<lparr>iDestChecksum := 0\<rparr>
      in if \<not> giTestRun w1
         then andthen (TimedCopyFile_transfer szSourceFilename szDestFilename l1 w1) (\<lambda>l2 w2.
                (let lw = TimedCopyFile_check szSourceFilename l2 w2;
                     w4 = (if iErr (fst lw) \<noteq> 0 then TimedCopyFile_discard szDestFilename (snd lw)
                           else snd lw);
                     lw5 = TimedCopyFile_retime szSourceFilename szDestFilename (fst lw) w4
                 in (Some (fst lw5), snd lw5)))
         else (Some l1, w1))"

text \<open>Lines 698 to 715: read the destination back and compare.\<close>

definition TimedCopyFile_verify :: "string \<Rightarrow> locals \<Rightarrow> world \<Rightarrow> locals option \<times> world" where
  "TimedCopyFile_verify szDestFilename l w =
     (if iErr l = 0
      then (let w1 = EchoPrint (''Verify '' @ StringShortner szDestFilename (LNSZ - 80)) w
            in if \<not> giTestRun w1
               then andthen (FilenameChecksum szDestFilename w1) (\<lambda>r w2.
                      if fst r = 0 \<and> iSourceChecksum l \<noteq> snd r
                      then (Some (l\<lparr>iErr := ERROR_TCPY, iDestChecksum := snd r\<rparr>),
                            TimedCopyFile_discard szDestFilename
                              (w2\<lparr>gszErr := ''Destination ''
                                             @ StringShortner szDestFilename (LNSZ - 80)
                                             @ '' Check Failed!''\<rparr>))
                      else (Some (l\<lparr>iErr := fst r, iDestChecksum := snd r\<rparr>), w2))
               else (Some l, w1))
      else (Some l, w))"

text \<open>Lines 550 to 716: what is done when the files differ.\<close>

definition TimedCopyFile_update ::
  "string \<Rightarrow> string \<Rightarrow> locals \<Rightarrow> world \<Rightarrow> locals option \<times> world" where
  "TimedCopyFile_update szSourceFilename szDestFilename l w =
     (if iErr l = 0 \<and> TimedCopyFile_differs l
      then (let lw = TimedCopyFile_delete szDestFilename l w
            in andthen (if iErr (fst lw) = 0
                        then TimedCopyFile_copy szSourceFilename szDestFilename (fst lw) (snd lw)
                        else (Some (fst lw), snd lw))
                 (\<lambda>l2 w2. TimedCopyFile_verify szDestFilename l2 w2))
      else (Some l, w))"

text \<open>Lines 718 to 730: in the mode of \<^verbatim>\<open>-del\<close>, delete the source. The message of a
  failure names the destination, as in the C file.\<close>

definition TimedCopyFile_unlink_source ::
  "int \<Rightarrow> string \<Rightarrow> string \<Rightarrow> locals \<Rightarrow> world \<Rightarrow> locals \<times> world" where
  "TimedCopyFile_unlink_source iMode szSourceFilename szDestFilename l w =
     (if iErr l = 0 \<and> iMode = TCPY_MODE_DEL
      then (let w1 = EchoPrint (''Delete '' @ StringShortner szSourceFilename (LNSZ - 80)) w
            in if \<not> giTestRun w1
               then (let r = sys_unlink szSourceFilename w1
                     in case fst r of
                          Some e \<Rightarrow> (l\<lparr>iErr := ERROR_TCPY\<rparr>,
                                     (snd r)\<lparr>gszErr := ''Failed to delete ''
                                                  @ StringShortner szDestFilename (LNSZ - 80)
                                                  @ '' (errno='' @ dec e @ '')''\<rparr>)
                        | None \<Rightarrow> (l, snd r))
               else (l, w1))
      else (l, w))"

text \<open>The conversion of a value to \<^verbatim>\<open>int\<close> (the casts in the calls of
  \<^verbatim>\<open>sprintf\<close>) and to \<^verbatim>\<open>useconds_t\<close>, an unsigned integer of 32 bits (the
  argument of \<^verbatim>\<open>usleep\<close>).\<close>

definition to_int :: "int \<Rightarrow> int" where
  "to_int x = sint (word_of_int x :: 32 word)"

definition to_useconds :: "int \<Rightarrow> int" where
  "to_useconds x = x mod 4294967296"

text \<open>Lines 734 to 765: the counters and the pauses, reached when \<^verbatim>\<open>iErr\<close> is 0. The
  counters are signed (\<^verbatim>\<open>int\<close> and \<^verbatim>\<open>ssize_t\<close>), so that their overflow is
  undefined; they are integers here.\<close>

definition TimedCopyFile_count :: "world \<Rightarrow> int option \<times> world" where
  "TimedCopyFile_count w =
     (let w1 = w\<lparr>giFileCount := giFileCount w + 1\<rparr>
      in if giPauseAfterVerif w1
         then KeyboardCheck 1 (w1\<lparr>giCopyByteCount := 0, giFileCount := 0,
                                  giPauseAfterVerif := False\<rparr>)
         else if COPYCOUNT \<le> giFileCount w1 \<and> \<not> giFaster w1
         then (Some 0, (log_event (Usleep 10000000)
                          (EchoPrint (dec COPYCOUNT @ '' files done, 10 sec. Pause...'') w1))
                         \<lparr>giFileCount := 0\<rparr>)
         else if 1073741824 < giCopyByteCount w1
         then (let n = (giCopyByteCount w1 * 30) div 1024;
                   w2 = EchoPrint
                          (if giFaster w1
                           then dec (to_int (giTotalByteCount w1 div 1073741824)) @ '' Gb done.''
                           else dec (to_int (giTotalByteCount w1 div 1073741824)) @ '' Gb done, ''
                                @ dec (to_int (n div 1000000)) @ '' sec. Pause...'') w1;
                   w3 = (if \<not> giFaster w2 then log_event (Usleep (to_useconds n)) w2
                         else w2)
               in (Some 0, w3\<lparr>giCopyByteCount := 0, giFileCount := 0\<rparr>))
         else (Some 0, w1))"

text \<open>Lines 515 to 716: probe, compare and, when the files differ, replace the
  destination.\<close>

definition TimedCopyFile_replicate ::
  "string \<Rightarrow> string \<Rightarrow> world \<Rightarrow> locals option \<times> world" where
  "TimedCopyFile_replicate szSourceFilename szDestFilename w =
     (let lw0 = TimedCopyFile_probe szSourceFilename szDestFilename w
      in andthen (TimedCopyFile_compare szSourceFilename szDestFilename (fst lw0) (snd lw0))
           (\<lambda>l1 w1. TimedCopyFile_update szSourceFilename szDestFilename l1 w1))"

definition TimedCopyFile :: "int \<Rightarrow> string \<Rightarrow> string \<Rightarrow> world \<Rightarrow> int option \<times> world" where
  "TimedCopyFile iMode szSourceFilename szDestFilename w =
     andthen (TimedCopyFile_replicate szSourceFilename szDestFilename w)
       (\<lambda>l2 w2.
          (let lw3 = TimedCopyFile_unlink_source iMode szSourceFilename szDestFilename l2 w2
           in if iErr (fst lw3) = 0 then TimedCopyFile_count (snd lw3)
              else (Some (iErr (fst lw3)), snd lw3)))"

subsection \<open>Level 3: TimedCopy\<close>

text \<open>Lines 871 to 876: append a slash unless the name ends with one. The names built
  here are never empty.\<close>

definition add_slash :: "string \<Rightarrow> string" where
  "add_slash s = (if s \<noteq> [] \<and> last s = CHR ''/'' then s else s @ ''/'')"

text \<open>
  Lines 857 to 902: one directory entry of the source. \<open>recurse\<close> stands for the
  recursive call \<^verbatim>\<open>TimedCopy(iMode, source, "", dest, "")\<close>.
  \<^verbatim>\<open>DirectoryValidate\<close> is called with a null buffer, so it uses its own.
\<close>

definition TimedCopy_entry ::
  "(string \<Rightarrow> string \<Rightarrow> world \<Rightarrow> int option \<times> world) \<Rightarrow> int \<Rightarrow> string \<Rightarrow> string
   \<Rightarrow> string \<times> 8 word \<Rightarrow> world \<Rightarrow> int option \<times> world" where
  "TimedCopy_entry recurse iMode szSourceDir szDestDir entry w =
     (let d_name = fst entry; d_type = snd entry
      in if d_name \<noteq> ''.'' \<and> d_name \<noteq> ''..''
         then (if LNSZ < int (length d_name)
               then (Some ERROR_TCPY,
                     w\<lparr>gszErr := ''Name '' @ StringShortner d_name (LNSZ - 40) @ '' Too Long!''\<rparr>)
               else if d_type AND DT_DIR = DT_DIR
               then (let r = DirectoryValidate (add_slash (szDestDir @ d_name)) (uninit_stat w) w
                     in if fst r = 0
                        then recurse (add_slash (szSourceDir @ d_name))
                               (add_slash (szDestDir @ d_name)) (snd (snd r))
                        else (Some (fst r), snd (snd r)))
               else if d_type AND DT_REG = DT_REG
               then TimedCopyFile iMode (szSourceDir @ d_name) (szDestDir @ d_name) w
               else (Some 0, w))
         else (Some 0, w))"

text \<open>Lines 852 to 905: the loop over the entries of the source directory.\<close>

fun TimedCopy_entries ::
  "(string \<Rightarrow> string \<Rightarrow> world \<Rightarrow> int option \<times> world) \<Rightarrow> int \<Rightarrow> string \<Rightarrow> string
   \<Rightarrow> (string \<times> 8 word) list \<Rightarrow> world \<Rightarrow> int option \<times> world" where
  "TimedCopy_entries recurse iMode szSourceDir szDestDir [] w = (Some 0, w)"
| "TimedCopy_entries recurse iMode szSourceDir szDestDir (entry # rest) w =
     andthen (TimedCopy_entry recurse iMode szSourceDir szDestDir entry w) (\<lambda>e w1.
       if e = 0 then TimedCopy_entries recurse iMode szSourceDir szDestDir rest w1
       else (Some e, w1))"

text \<open>Lines 920 to 937: one directory entry of the destination, in the mirror cleanup.\<close>

definition TimedCopy_mirror_entry :: "string \<Rightarrow> string \<Rightarrow> string \<times> 8 word \<Rightarrow> world \<Rightarrow> world" where
  "TimedCopy_mirror_entry szSourceDir szDestDir entry w =
     (if snd entry AND DT_REG = DT_REG
      then (if \<not> fst (FilenameExist w (szSourceDir @ fst entry) (uninit_stat w))
            then (let sz = StringShortner (szDestDir @ fst entry) (LNSZ - 30);
                      w1 = EchoPrint (''Delete '' @ sz) w
                  in if \<not> giTestRun w1
                     then (let r = sys_unlink (szDestDir @ fst entry) w1
                           in case fst r of
                                Some e \<Rightarrow> log_event (Warning (''WARNING: Failed to delete '' @ sz))
                                            (snd r)
                              | None \<Rightarrow> snd r)
                     else w1)
            else w)
      else w)"

text \<open>Lines 916 to 939: the loop of the mirror cleanup.\<close>

fun TimedCopy_mirror :: "string \<Rightarrow> string \<Rightarrow> (string \<times> 8 word) list \<Rightarrow> world \<Rightarrow> world" where
  "TimedCopy_mirror szSourceDir szDestDir [] w = w"
| "TimedCopy_mirror szSourceDir szDestDir (entry # rest) w =
     TimedCopy_mirror szSourceDir szDestDir rest
       (TimedCopy_mirror_entry szSourceDir szDestDir entry w)"

text \<open>Lines 849 to 943: a whole directory, then the mirror cleanup.\<close>

definition TimedCopy_directory ::
  "(string \<Rightarrow> string \<Rightarrow> world \<Rightarrow> int option \<times> world) \<Rightarrow> int \<Rightarrow> string \<Rightarrow> string
   \<Rightarrow> world \<Rightarrow> int option \<times> world" where
  "TimedCopy_directory recurse iMode szSourceDir szDestDir w =
     andthen (let d = sys_opendir szSourceDir w
              in case fst d of
                   None \<Rightarrow> (Some 0, snd d)
                 | Some entries \<Rightarrow>
                     TimedCopy_entries recurse iMode szSourceDir szDestDir entries (snd d))
       (\<lambda>e w1.
          if e = 0 \<and> iMode = TCPY_MODE_MIRROR
          then (let d = sys_opendir szDestDir w1
                in case fst d of
                     None \<Rightarrow> (Some e, snd d)
                   | Some entries \<Rightarrow>
                       (Some e, TimedCopy_mirror szSourceDir szDestDir entries (snd d)))
          else (Some e, w1))"

text \<open>Lines 812 to 835: the two directories must exist; the source must not be the
  directory recorded in \<^verbatim>\<open>giSt_dev\<close> and \<^verbatim>\<open>giSt_ino\<close>; the destination is
  recorded there when both are still 0.\<close>

definition TimedCopy_guard :: "string \<Rightarrow> string \<Rightarrow> world \<Rightarrow> int \<times> world" where
  "TimedCopy_guard szSourceDir szDestDir w =
     (let s = DirectoryExist w szSourceDir (uninit_stat w);
          e1 = (if fst s
                then (if st_dev (snd s) = giSt_dev w \<and> st_ino (snd s) = giSt_ino w
                      then ERROR_TCPY_CIRC else 0)
                else ERROR_TCPY_USAGE)
      in if e1 = 0
         then (let d = DirectoryExist w szDestDir (snd s)
               in if fst d
                  then (if \<not> (giSt_dev w \<noteq> 0 \<or> giSt_ino w \<noteq> 0)
                        then (0, w\<lparr>giSt_dev := st_dev (snd d), giSt_ino := st_ino (snd d)\<rparr>)
                        else (0, w))
                  else (ERROR_TCPY_USAGE, w))
         else (e1, w))"

text \<open>The body of \<^verbatim>\<open>TimedCopy\<close> (lines 810 to 972).\<close>

definition TimedCopy_body ::
  "(string \<Rightarrow> string \<Rightarrow> world \<Rightarrow> int option \<times> world) \<Rightarrow> int \<Rightarrow> string \<Rightarrow> string
   \<Rightarrow> string \<Rightarrow> string \<Rightarrow> world \<Rightarrow> int option \<times> world" where
  "TimedCopy_body recurse iMode szSourceDir szSourceFile szDestDir szDestFile w =
     (if szSourceDir \<noteq> szDestDir
      then (let g = TimedCopy_guard szSourceDir szDestDir w
            in if fst g = 0
               then (if szSourceFile \<noteq> []
                     then TimedCopyFile iMode (szSourceDir @ szSourceFile)
                            (szDestDir @ szDestFile) (snd g)
                     else TimedCopy_directory recurse iMode szSourceDir szDestDir (snd g))
               else (Some (fst g), snd g))
      else if szSourceFile \<noteq> []
      then (if szSourceFile \<noteq> szDestFile
            then TimedCopyFile iMode (szSourceDir @ szSourceFile) (szDestDir @ szDestFile) w
            else (Some ERROR_TCPY,
                  w\<lparr>gszErr := ''Can't copy the '' @ StringShortner szSourceFile (LNSZ - 60)
                                 @ '' file on itself!''\<rparr>))
      else (Some ERROR_TCPY,
            w\<lparr>gszErr := ''Can't copy the '' @ StringShortner szSourceDir (LNSZ - 60)
                           @ '' directory on itself!''\<rparr>))"

text \<open>\<^verbatim>\<open>TimedCopy\<close>. The first argument bounds the depth of the recursion, which
  follows the source tree while the program itself adds directories to the file system;
  \<open>None\<close> is returned when the bound is reached (or when a pause never ends).\<close>

primrec TimedCopy ::
  "nat \<Rightarrow> int \<Rightarrow> string \<Rightarrow> string \<Rightarrow> string \<Rightarrow> string \<Rightarrow> world \<Rightarrow> int option \<times> world" where
  "TimedCopy 0 iMode szSourceDir szSourceFile szDestDir szDestFile w = (None, w)"
| "TimedCopy (Suc n) iMode szSourceDir szSourceFile szDestDir szDestFile w =
     TimedCopy_body (\<lambda>s d. TimedCopy n iMode s [] d []) iMode
       szSourceDir szSourceFile szDestDir szDestFile w"

text \<open>The state in which \<^verbatim>\<open>main\<close> starts: the globals as the C file initialises
  them, a healthy disk, and a clock that works and advances one second per reading.\<close>

definition initial_world :: "(string \<times> node) list \<Rightarrow> int option list \<Rightarrow> world" where
  "initial_world files ks =
     \<lparr>giFaster = False, giFileCount = 0, giPauseAfterVerif = False, giTestRun = False,
      gszErr = [], giNanoFastest = 0, giNanoPrev = 0, giCopyByteCount = 0,
      giTotalByteCount = 0, giSt_dev = 0, giSt_ino = 0,
      fs = files, faults = (\<lambda>c. None), garble = (\<lambda>p b. b), keys = ks,
      clock = (\<lambda>n. (0, of_nat n, 0)), ticks = 0, now = (1000, 0), next_ino = 1000,
      cur_dev = 1, uninit_stat = zero_stat, trace = []\<rparr>"

subsection \<open>Predicates and example states used in the properties\<close>

text \<open>The file that a mutating call is about.\<close>

fun target :: "event \<Rightarrow> string option" where
  "target (Mkdir p m) = Some p"
| "target (Unlink p) = Some p"
| "target (Creat p m) = Some p"
| "target (Write p b) = Some p"
| "target (Utimens p s n) = Some p"
| "target e = None"

text \<open>The events that involve no file.\<close>

definition quiet :: "event \<Rightarrow> bool" where
  "quiet e = (case e of Echo s \<Rightarrow> True | Warning s \<Rightarrow> True | Usleep n \<Rightarrow> True
              | Nanosleep a b \<Rightarrow> True | _ \<Rightarrow> False)"

text \<open>The events that \<^verbatim>\<open>TimedCopyFile\<close> may produce for a source and a destination,
  in a test run (\<open>dry\<close>) or not.\<close>

definition file_events :: "bool \<Rightarrow> int \<Rightarrow> string \<Rightarrow> string \<Rightarrow> event \<Rightarrow> bool" where
  "file_events dry iMode src dst e =
     (case e of
        Echo s \<Rightarrow> True | Warning s \<Rightarrow> True | Usleep n \<Rightarrow> True | Nanosleep a b \<Rightarrow> True
      | OpenRead p \<Rightarrow> \<not> dry \<and> (p = src \<or> p = dst)
      | Opendir p \<Rightarrow> False
      | Mkdir p m \<Rightarrow> False
      | Unlink p \<Rightarrow> \<not> dry \<and> (p = dst \<or> (iMode = TCPY_MODE_DEL \<and> p = src))
      | Creat p m \<Rightarrow> \<not> dry \<and> p = dst
      | Write p b \<Rightarrow> \<not> dry \<and> p = dst
      | Utimens p a b \<Rightarrow> \<not> dry \<and> p = dst)"

text \<open>The events that a run may produce: in a test run, no \<^verbatim>\<open>unlink\<close>, no creation
  of a file, no \<^verbatim>\<open>write\<close> and no \<^verbatim>\<open>utimensat\<close>.\<close>

definition run_events :: "bool \<Rightarrow> event \<Rightarrow> bool" where
  "run_events dry e =
     (case e of Unlink p \<Rightarrow> \<not> dry | Creat p m \<Rightarrow> \<not> dry | Write p b \<Rightarrow> \<not> dry
      | Utimens p a b \<Rightarrow> \<not> dry | _ \<Rightarrow> True)"

text \<open>The settings that no function of the program changes.\<close>

definition same_settings :: "world \<Rightarrow> world \<Rightarrow> bool" where
  "same_settings w w' =
     (giFaster w' = giFaster w \<and> giTestRun w' = giTestRun w \<and> faults w' = faults w
      \<and> garble w' = garble w \<and> clock w' = clock w \<and> now w' = now w
      \<and> cur_dev w' = cur_dev w \<and> uninit_stat w' = uninit_stat w)"

text \<open>The keys of the files that the mutating calls among some events are about.\<close>

definition touched :: "event list \<Rightarrow> string set" where
  "touched ev = {k. \<exists>e \<in> set ev. \<exists>p. target e = Some p \<and> k = key_of p}"

text \<open>The relation between the two timing globals that the delay computation relies on.\<close>

definition throttle_inv :: "world \<Rightarrow> bool" where
  "throttle_inv w =
     (giNanoFastest w \<le> giNanoPrev w \<and> (giNanoFastest w = 0 \<longrightarrow> giNanoPrev w = 0))"

text \<open>
  \<open>evolves P w w'\<close>: the state \<open>w'\<close> comes after \<open>w\<close> in a run. The settings are the
  same; a recorded traversal guard is kept; the relation of the timing globals is kept;
  the trace has grown by events that satisfy \<open>P\<close>; and a file has changed only if one of
  these events is a mutating call on it.
\<close>

definition evolves :: "(event \<Rightarrow> bool) \<Rightarrow> world \<Rightarrow> world \<Rightarrow> bool" where
  "evolves P w w' =
     (same_settings w w'
      \<and> (giSt_dev w \<noteq> 0 \<or> giSt_ino w \<noteq> 0 \<longrightarrow>
           giSt_dev w' = giSt_dev w \<and> giSt_ino w' = giSt_ino w)
      \<and> (throttle_inv w \<longrightarrow> throttle_inv w')
      \<and> (\<exists>ev. trace w' = trace w @ ev \<and> list_all P ev
              \<and> (\<forall>k. k \<notin> touched ev \<longrightarrow> map_of (fs w') k = map_of (fs w) k)))"

text \<open>The events that a step from \<open>w\<close> to \<open>w'\<close> added to the trace.\<close>

definition new_events :: "world \<Rightarrow> world \<Rightarrow> event list" where
  "new_events w w' = drop (length (trace w)) (trace w')"

text \<open>The state after a write of a full buffer measured at 500 ns and a write of 100 bytes
  measured at 3000 ns.\<close>

definition paced_world :: world where
  "paced_world = TimedCopyFile_timing 3000 100
                   (TimedCopyFile_timing 500 LNBIGBUFFER (initial_world [] []))"

text \<open>The state after two writes of full buffers measured at 1 ns and at
  \<open>2 ^ 50 + 1\<close> ns.\<close>

definition slow_world :: world where
  "slow_world = TimedCopyFile_timing 1125899906842625 LNBIGBUFFER
                  (TimedCopyFile_timing 1 LNBIGBUFFER (initial_world [] []))"

text \<open>A small disk: a source directory with one subdirectory, a destination directory
  and a regular file of three bytes; and the initial state of a test run on it.\<close>

definition dir_node :: "nat \<Rightarrow> node" where
  "dir_node i = \<lparr>n_mode = 0x41ED, n_dev = 1, n_ino = i, n_mtim_sec = 5, n_mtim_nsec = 0, n_data = []\<rparr>"

definition file_node :: "nat \<Rightarrow> byte list \<Rightarrow> node" where
  "file_node i dat = \<lparr>n_mode = 0x81A4, n_dev = 1, n_ino = i, n_mtim_sec = 7, n_mtim_nsec = 0, n_data = dat\<rparr>"

definition tree1 :: "(string \<times> node) list" where
  "tree1 = [(''src'', dir_node 2), (''src/sub'', dir_node 3), (''dst'', dir_node 4),
            (''f'', file_node 5 [1, 2, 3])]"

definition test_world :: world where
  "test_world = (initial_world tree1 [])\<lparr>giTestRun := True\<rparr>"

text \<open>A run on the same disk that is not a test run, from \<^verbatim>\<open>src/\<close> to its own
  subdirectory \<^verbatim>\<open>src/sub/\<close>: the initial state, the state after the first
  \<^verbatim>\<open>opendir\<close>, and the state after \<^verbatim>\<open>DirectoryValidate\<close> has made
  \<^verbatim>\<open>src/sub/sub\<close>.\<close>

definition loop_world :: world where
  "loop_world = initial_world tree1 []"

definition loop_opened :: world where
  "loop_opened = log_event (Opendir ''src/'') (loop_world\<lparr>giSt_dev := 1, giSt_ino := 3\<rparr>)"

definition loop_made :: world where
  "loop_made = snd (snd (DirectoryValidate ''src/sub/sub/'' (uninit_stat loop_world) loop_opened))"

text \<open>A disk with one empty regular file whose modification time is the epoch, in the
  initial state.\<close>

definition epoch_world :: world where
  "epoch_world = initial_world
     [(''e'', \<lparr>n_mode = 0x81A4, n_dev = 1, n_ino = 9, n_mtim_sec = 0, n_mtim_nsec = 0,
               n_data = []\<rparr>)] []"



text \<open>A disk for a mirror run: the source holds \<^verbatim>\<open>a\<close>, the destination holds the
  same \<^verbatim>\<open>a\<close> and a file \<^verbatim>\<open>c\<close>; and the same where \<^verbatim>\<open>unlink\<close> of
  \<^verbatim>\<open>dst/c\<close> fails with \<^verbatim>\<open>EACCES\<close>.\<close>

definition mirror_world :: world where
  "mirror_world = initial_world
     [(''src'', dir_node 2), (''dst'', dir_node 3), (''src/a'', file_node 5 [1, 2, 3]),
      (''dst/a'', file_node 6 [1, 2, 3]), (''dst/c'', file_node 7 [4])] []"

definition locked_world :: world where
  "locked_world = mirror_world\<lparr>faults := (\<lambda>c. if c = SysUnlink ''dst/c'' then Some 13 else None)\<rparr>"

text \<open>The initial state of a run from \<^verbatim>\<open>src/\<close>, which holds a file and the
  directory \<^verbatim>\<open>sub\<close>, to \<^verbatim>\<open>src/sub/\<close>.\<close>

definition nest_world :: world where
  "nest_world = initial_world
     [(''src'', dir_node 2), (''src/a'', file_node 5 [1, 2, 3]), (''src/sub'', dir_node 3)] []"

section \<open>Properties\<close>

subsection \<open>The checksum\<close>

lemma bit_times_two:
  "bit ((x::'a::len word) * 2) n = (0 < n \<and> n < LENGTH('a) \<and> bit x (n - 1))"
proof -
  have "x * 2 = push_bit 1 x" by simp
  then show ?thesis by (auto simp only: bit_push_bit_iff possible_bit_word)
qed

lemma mask_low_byte: "(0xFF :: 'a::len word) = mask 8"
  by (simp add: mask_eq_exp_minus_1)

lemma char_low_bits: "(scast (b::byte) :: 'a::len word) AND 0xFF = ucast b"
  unfolding mask_low_byte
proof (rule bit_word_eqI)
  fix n assume len: "n < LENGTH('a)"
  have small: "bit b n \<Longrightarrow> n < 8" using bit_imp_le_length [of b n] by simp
  show "bit ((scast b :: 'a word) AND mask 8) n = bit (ucast b :: 'a word) n"
  proof (cases "n < 8")
    case True
    then have "min 7 n = n" by simp
    then show ?thesis using True len by (simp add: bit_simps)
  next
    case False
    then show ?thesis using small by (auto simp: bit_simps)
  qed
qed

lemma top_bit_test: "((s::'a::len word) AND 0x80000000 \<noteq> 0) = bit s 31"
proof -
  have "(0x80000000 :: 'a word) = 2 ^ 31" by simp
  then show ?thesis by (simp only: and_exp_eq_0_iff_not_bit) simp
qed

lemma ChecksumStep_bits:
  "ChecksumStep b (s::'a::len word) = (s * 2 XOR ucast b * 2) OR of_bool (bit s 31)"
  unfolding ChecksumStep_def Let_def char_low_bits top_bit_test by simp

lemma ChecksumStep_low32:
  assumes "32 \<le> LENGTH('a::len)"
  shows "(ucast (ChecksumStep b (s::'a word)) :: 32 word) = spec_checksum_step b (ucast s)"
  unfolding ChecksumStep_bits spec_checksum_step_def
proof (rule bit_word_eqI)
  fix n assume n: "n < LENGTH(32)"
  have b31: "\<not> bit b 31" using bit_imp_le_length [of b 31] by auto
  show "bit (ucast ((s * 2 XOR ucast b * 2) OR of_bool (bit s 31)) :: 32 word) n
      = bit (word_rotl 1 (ucast s XOR ucast b) :: 32 word) n"
  proof (cases n)
    case 0
    then show ?thesis using b31 assms
      by (simp add: bit_simps bit_times_two)
  next
    case (Suc m)
    then have "(n + 31) mod 32 = m" using n by simp
    then show ?thesis using n Suc assms
      by (simp add: bit_simps bit_times_two)
  qed
qed

lemma ChecksumAdd_low32:
  "32 \<le> LENGTH('a::len) \<Longrightarrow>
   (ucast (ChecksumAdd B (s::'a word)) :: 32 word) = spec_checksum B (ucast s)"
  by (induction B arbitrary: s) (simp_all add: ChecksumStep_low32)

lemma ChecksumAdd_append: "ChecksumAdd (A @ B) s = ChecksumAdd B (ChecksumAdd A s)"
  by (induction A arbitrary: s) simp_all

lemma spec_checksum_eq_ChecksumAdd: "spec_checksum B t = ChecksumAdd B t"
  using ChecksumAdd_low32 [of B t] by simp

lemma spec_checksum_order: "spec_checksum (rev [1, 2]) 0 \<noteq> spec_checksum [1, 2] 0"
  by (simp add: spec_checksum_eq_ChecksumAdd ChecksumStep_def)

text \<open>
  C2, as stated, fails at the width that \<^verbatim>\<open>unsigned long\<close> has on an LP64 target:
  the shift is one of the whole variable, so the bit that leaves position 31 goes to
  position 32 instead of being dropped. From seed 0, the byte \<open>0x80\<close> followed by 24
  zero bytes gives \<open>0x100000001\<close>, where the rotation within 32 bits gives \<open>1\<close>.
\<close>

theorem C2_wide_state_counterexample:
  "ChecksumAdd [0x80, 0, 0, 0, 0, 0, 0, 0, 0, 0, 0, 0, 0, 0, 0, 0, 0, 0, 0, 0, 0, 0, 0, 0, 0]
     (0::ulong) = 0x100000001
   \<and> spec_checksum [0x80, 0, 0, 0, 0, 0, 0, 0, 0, 0, 0, 0, 0, 0, 0, 0, 0, 0, 0, 0, 0, 0, 0, 0, 0]
       0 = 1
   \<and> ChecksumAdd [0x80, 0, 0, 0, 0, 0, 0, 0, 0, 0, 0, 0, 0, 0, 0, 0, 0, 0, 0, 0, 0, 0, 0, 0, 0]
       (0::ulong)
     \<noteq> ucast (spec_checksum
                 [0x80, 0, 0, 0, 0, 0, 0, 0, 0, 0, 0, 0, 0, 0, 0, 0, 0, 0, 0, 0, 0, 0, 0, 0, 0] 0)"
proof -
  let ?X = "[0x80, 0, 0, 0, 0, 0, 0, 0, 0, 0, 0, 0, 0, 0, 0, 0, 0, 0, 0, 0, 0, 0, 0, 0, 0] :: byte list"
  have wide: "ChecksumAdd ?X (0::ulong) = 0x100000001"
    by (simp add: ChecksumStep_def)
  have narrow: "spec_checksum ?X 0 = 1"
    by (simp add: spec_checksum_eq_ChecksumAdd ChecksumStep_def)
  show ?thesis unfolding wide narrow by simp
qed

text \<open>
  C2, amended. \<^verbatim>\<open>ChecksumAdd\<close> is a function of the state and the bytes alone. Each
  step XORs the low 8 bits of the byte into the state, shifts the whole state left by one
  bit and sets bit 0 to what bit 31 was. For every width of \<^verbatim>\<open>unsigned long\<close> of at
  least 32 bits, the low 32 bits of the result are the specification's checksum (XOR,
  then rotation left by one bit within 32 bits), and at a width of exactly 32 bits they
  are the whole state. Reading a buffer in two pieces gives the checksum of the whole,
  so the checksum from seed 0 is determined by the byte sequence; and there is a buffer
  whose reversal has another checksum.
\<close>

theorem C2_checksum_rotate_xor:
  assumes "32 \<le> LENGTH('a::len)"
  shows "(ucast (ChecksumAdd B (s::'a word)) :: 32 word) = spec_checksum B (ucast s)
       \<and> ChecksumAdd B (t::32 word) = spec_checksum B t
       \<and> ChecksumStep b s = push_bit 1 (s XOR ucast b) OR of_bool (bit s 31)
       \<and> ChecksumAdd (A @ B) s = ChecksumAdd B (ChecksumAdd A s)
       \<and> (\<exists>X. ChecksumAdd (rev X) (0::'a word) \<noteq> ChecksumAdd X 0)"
proof -
  have low: "(ucast (ChecksumAdd X (u::'a word)) :: 32 word) = spec_checksum X (ucast u)" for X u
    using assms by (rule ChecksumAdd_low32)
  have exact: "ChecksumAdd B t = spec_checksum B t"
    using ChecksumAdd_low32 [of B t] by simp
  have "ChecksumAdd (rev [1, 2]) (0::'a word) \<noteq> ChecksumAdd [1, 2] 0"
  proof
    assume "ChecksumAdd (rev [1, 2]) (0::'a word) = ChecksumAdd [1, 2] 0"
    then have "(ucast (ChecksumAdd (rev [1, 2]) (0::'a word)) :: 32 word)
             = ucast (ChecksumAdd [1, 2] (0::'a word))"
      by simp
    then have "spec_checksum (rev [1, 2]) 0 = spec_checksum [1, 2] 0"
      unfolding low by simp
    then show False using spec_checksum_order by contradiction
  qed
  then have "\<exists>X. ChecksumAdd (rev X) (0::'a word) \<noteq> ChecksumAdd X 0" by blast
  moreover have "ChecksumStep b s = push_bit 1 (s XOR ucast b) OR of_bool (bit s 31)"
    using assms by (simp add: ChecksumStep_bits)
  ultimately show ?thesis using low exact ChecksumAdd_append by blast
qed

theorem C2_checksum_witness:
  "32 \<le> LENGTH(64)
   \<and> (ucast (ChecksumAdd [0x80, 0x41, 0xFF] (0x80000000::64 word)) :: 32 word) = 0x000004FE
   \<and> ChecksumAdd [0x80, 0x41, 0xFF] (0x80000000::64 word) = 0x4000004FE
   \<and> ChecksumAdd [0x80, 0x41, 0xFF] (0x80000000::32 word) = 0x000004FE"
proof -
  have len: "32 \<le> LENGTH(64)" by simp
  have spec: "spec_checksum [0x80, 0x41, 0xFF] (0x80000000::32 word) = 0x000004FE"
    by (simp add: spec_checksum_eq_ChecksumAdd ChecksumStep_def)
  have wide: "ChecksumAdd [0x80, 0x41, 0xFF] (0x80000000::64 word) = 0x4000004FE"
    by (simp add: ChecksumStep_def)
  from C2_checksum_rotate_xor [OF len, where B = "[0x80, 0x41, 0xFF]" and s = "0x80000000"
      and t = "0x80000000"]
  show ?thesis using spec wide by simp
qed

subsection \<open>The keyboard\<close>

lemma KeyboardLoop_idle_paused:
  "KeyboardLoop (replicate n None @ ks) True w = KeyboardLoop ks True w"
  by (induction n) simp_all

lemma KeyboardCheck_idle:
  "KeyboardCheck 0 (w\<lparr>keys := None # ks\<rparr>) = (Some 0, w\<lparr>keys := ks\<rparr>)"
  "KeyboardCheck 0 (w\<lparr>keys := []\<rparr>) = (Some 0, w\<lparr>keys := []\<rparr>)"
  by (simp_all add: KeyboardCheck_def)

text \<open>
  C9. The claim is that every iteration of the pause loop sleeps before it polls again.
  In the code the \<^verbatim>\<open>usleep\<close> stands inside the branch taken when a key was read:
  a paused \<^verbatim>\<open>KeyboardCheck\<close> that finds nothing pending \<open>n\<close> times and then the key
  \<^verbatim>\<open>p\<close> returns 0 having printed its two lines and slept not once, whatever \<open>n\<close>
  is.
\<close>

theorem C9_paused_polls_do_not_sleep:
  "KeyboardCheck 1 (w\<lparr>keys := replicate n None @ Some 112 # ks\<rparr>)
     = (Some 0, w\<lparr>keys := ks, trace := trace w @ [Echo ''Pause...'', Echo ''Resume...'']\<rparr>)"
  by (simp add: KeyboardCheck_def KeyboardLoop_idle_paused EchoPrint_def log_event_def)

subsection \<open>The throttle\<close>

lemma unat_iRead: "iRead \<le> LNBIGBUFFER \<Longrightarrow> unat (of_nat iRead :: TNSEC) = iRead"
  by (simp add: unat_of_nat)

lemma scaled_le:
  fixes x r :: nat
  assumes "r \<le> 32768"
  shows "(x * r mod 2 ^ 64) div 32768 \<le> x"
proof (cases "x * r < 2 ^ 64")
  case True
  have "x * r div 32768 \<le> x * 32768 div 32768"
    using assms by (intro div_le_mono mult_le_mono2)
  then show ?thesis using True by simp
next
  case False
  then have "2 ^ 64 \<le> x * r" by simp
  also have "x * r \<le> x * 32768" using assms by simp
  finally have "(2::nat) ^ 49 \<le> x" by simp
  moreover have "(x * r mod 2 ^ 64) div 32768 < (2::nat) ^ 49"
  proof -
    have "x * r mod 2 ^ 64 < (2::nat) ^ 64" by simp
    then show ?thesis by (simp add: less_mult_imp_div_less)
  qed
  ultimately show ?thesis by linarith
qed

lemma delay_unat:
  assumes "giNanoFastest w \<le> giNanoPrev w" "iRead \<le> LNBIGBUFFER"
  shows "unat (TimedCopyFile_delay w iRead)
       = (if iRead \<noteq> LNBIGBUFFER
          then ((unat (giNanoPrev w) - unat (giNanoFastest w)) * iRead mod 2 ^ 64) div LNBIGBUFFER
          else unat (giNanoPrev w) - unat (giNanoFastest w))"
proof -
  have sub: "unat (giNanoPrev w - giNanoFastest w) = unat (giNanoPrev w) - unat (giNanoFastest w)"
    using assms(1) by (simp add: unat_sub)
  show ?thesis
    unfolding TimedCopyFile_delay_def Let_def
    using sub unat_iRead [OF assms(2)]
    by (simp add: unat_div unat_word_ariths)
qed

lemma timing_inv: "throttle_inv (TimedCopyFile_timing elapsed iRead w)"
  unfolding throttle_inv_def TimedCopyFile_timing_def Let_def
  by (auto simp: word_le_nat_alt word_less_nat_alt unat_eq_zero)

lemma initial_inv: "throttle_inv (initial_world files ks)"
  by (simp add: throttle_inv_def initial_world_def)

text \<open>
  C5, as stated, fails where the 64-bit product overflows: after writes measured at 1 ns
  and at \<open>2 ^ 50 + 1\<close> ns, the delay computed for a buffer of 32767 bytes is not the
  difference scaled by 32767/32768.
\<close>

theorem C5_scaling_counterexample:
  "unat (TimedCopyFile_delay slow_world 32767)
     \<noteq> (unat (giNanoPrev slow_world) - unat (giNanoFastest slow_world)) * 32767 div LNBIGBUFFER"
  by (simp add: slow_world_def TimedCopyFile_timing_def TimedCopyFile_delay_def
      initial_world_def Let_def)

text \<open>
  C5, amended. \<open>throttle_inv\<close> holds in the initial state and after every timing
  update, so wherever the delay is computed \<^verbatim>\<open>giNanoFastest\<close> is at most
  \<^verbatim>\<open>giNanoPrev\<close> and the subtraction does not wrap. The delay is at most that
  difference; it is the difference for a full buffer, and the difference times
  \<open>iRead / LNBIGBUFFER\<close> (rounded down) for a partial one whenever the product fits in
  64 bits; it is 0 while \<^verbatim>\<open>giNanoFastest\<close> is 0; and \<^verbatim>\<open>nanosleep\<close> is called
  with it, as seconds and nanoseconds below \<open>10 ^ 9\<close>, exactly when
  \<^verbatim>\<open>giFaster\<close> is off.
\<close>

theorem C5_throttle_delay:
  assumes inv: "throttle_inv w" and r: "0 < iRead" "iRead \<le> LNBIGBUFFER"
  shows "giNanoFastest w \<le> giNanoPrev w
       \<and> unat (TimedCopyFile_delay w iRead) \<le> unat (giNanoPrev w) - unat (giNanoFastest w)
       \<and> (iRead = LNBIGBUFFER \<longrightarrow>
            unat (TimedCopyFile_delay w iRead) = unat (giNanoPrev w) - unat (giNanoFastest w))
       \<and> ((unat (giNanoPrev w) - unat (giNanoFastest w)) * iRead < 2 ^ 64 \<longrightarrow>
            unat (TimedCopyFile_delay w iRead)
              = (unat (giNanoPrev w) - unat (giNanoFastest w)) * iRead div LNBIGBUFFER)
       \<and> (giNanoFastest w = 0 \<longrightarrow> TimedCopyFile_delay w iRead = 0)
       \<and> trace (TimedCopyFile_slowdown iRead w)
           = trace w @ (if giFaster w then []
                        else [Nanosleep (TimedCopyFile_delay w iRead div ONESECINNANO)
                                        (TimedCopyFile_delay w iRead mod ONESECINNANO)])
       \<and> unat (TimedCopyFile_delay w iRead mod ONESECINNANO) < 1000000000
       \<and> throttle_inv (TimedCopyFile_timing elapsed iRead w)
       \<and> throttle_inv (initial_world files ks)"
proof -
  have le: "giNanoFastest w \<le> giNanoPrev w" using inv by (simp add: throttle_inv_def)
  note d = delay_unat [OF le r(2)]
  let ?x = "unat (giNanoPrev w) - unat (giNanoFastest w)"
  have bound: "unat (TimedCopyFile_delay w iRead) \<le> ?x"
    unfolding d using scaled_le [OF r(2), of ?x] by simp
  have full: "iRead = LNBIGBUFFER \<longrightarrow> unat (TimedCopyFile_delay w iRead) = ?x"
    unfolding d by simp
  have exact: "?x * iRead < 2 ^ 64 \<longrightarrow>
               unat (TimedCopyFile_delay w iRead) = ?x * iRead div LNBIGBUFFER"
    unfolding d by simp
  have unset: "giNanoFastest w = 0 \<longrightarrow> TimedCopyFile_delay w iRead = 0"
    using inv by (simp add: throttle_inv_def TimedCopyFile_delay_def)
  have sleep: "trace (TimedCopyFile_slowdown iRead w)
           = trace w @ (if giFaster w then []
                        else [Nanosleep (TimedCopyFile_delay w iRead div ONESECINNANO)
                                        (TimedCopyFile_delay w iRead mod ONESECINNANO)])"
    by (simp add: TimedCopyFile_slowdown_def log_event_def Let_def)
  have nsec: "unat (TimedCopyFile_delay w iRead mod ONESECINNANO) < 1000000000"
    by (simp add: unat_mod)
  show ?thesis using le bound full exact unset sleep nsec timing_inv initial_inv by blast
qed


lemma paced_world_values:
  "giNanoPrev paced_world = 983040 \<and> giNanoFastest paced_world = 500"
  by (simp add: paced_world_def TimedCopyFile_timing_def initial_world_def Let_def)

theorem C5_throttle_witness:
  "throttle_inv paced_world \<and> (0::nat) < 16384 \<and> (16384::nat) \<le> LNBIGBUFFER
   \<and> giNanoFastest paced_world \<le> giNanoPrev paced_world
   \<and> unat (TimedCopyFile_delay paced_world 16384)
       \<le> unat (giNanoPrev paced_world) - unat (giNanoFastest paced_world)
   \<and> TimedCopyFile_delay paced_world 16384 = 491270"
proof -
  have inv: "throttle_inv paced_world" unfolding paced_world_def by (rule timing_inv)
  have r: "(0::nat) < 16384" "(16384::nat) \<le> LNBIGBUFFER" by simp_all
  have d: "TimedCopyFile_delay paced_world 16384 = 491270"
    using paced_world_values by (simp add: TimedCopyFile_delay_def)
  have "giNanoFastest paced_world \<le> giNanoPrev paced_world
      \<and> unat (TimedCopyFile_delay paced_world 16384)
          \<le> unat (giNanoPrev paced_world) - unat (giNanoFastest paced_world)"
    using C5_throttle_delay [OF inv r] by blast
  then show ?thesis using inv r d by blast
qed

subsection \<open>What the functions leave unchanged\<close>

lemma touched_simps [simp]:
  "touched [] = {}"
  "touched (ev @ ev') = touched ev \<union> touched ev'"
  "touched [e] = (case target e of None \<Rightarrow> {} | Some p \<Rightarrow> {key_of p})"
  by (auto simp: touched_def split: option.splits)

lemma evolves_refl [simp]: "evolves P w w"
  by (simp add: evolves_def same_settings_def)

lemma evolves_trans:
  assumes "evolves P w w1" "evolves P w1 w2"
  shows "evolves P w w2"
proof -
  from assms(1) obtain ev1 where 1: "trace w1 = trace w @ ev1" "list_all P ev1"
    "\<forall>k. k \<notin> touched ev1 \<longrightarrow> map_of (fs w1) k = map_of (fs w) k"
    unfolding evolves_def by blast
  from assms(2) obtain ev2 where 2: "trace w2 = trace w1 @ ev2" "list_all P ev2"
    "\<forall>k. k \<notin> touched ev2 \<longrightarrow> map_of (fs w2) k = map_of (fs w1) k"
    unfolding evolves_def by blast
  have "trace w2 = trace w @ (ev1 @ ev2)" "list_all P (ev1 @ ev2)"
    "\<forall>k. k \<notin> touched (ev1 @ ev2) \<longrightarrow> map_of (fs w2) k = map_of (fs w) k"
    using 1 2 by simp_all
  then have "\<exists>ev. trace w2 = trace w @ ev \<and> list_all P ev
              \<and> (\<forall>k. k \<notin> touched ev \<longrightarrow> map_of (fs w2) k = map_of (fs w) k)"
    by blast
  moreover have "same_settings w w2"
    using assms unfolding evolves_def same_settings_def by simp
  moreover have "giSt_dev w \<noteq> 0 \<or> giSt_ino w \<noteq> 0 \<longrightarrow>
           giSt_dev w2 = giSt_dev w \<and> giSt_ino w2 = giSt_ino w"
    using assms unfolding evolves_def by auto
  moreover have "throttle_inv w \<longrightarrow> throttle_inv w2"
    using assms unfolding evolves_def by auto
  ultimately show ?thesis unfolding evolves_def by blast
qed

lemma evolves_mono: "evolves P w w' \<Longrightarrow> (\<And>e. P e \<Longrightarrow> Q e) \<Longrightarrow> evolves Q w w'"
  unfolding evolves_def by (auto simp: list_all_iff)

lemma evolves_step:
  assumes "evolves P w w1"
    and "same_settings w1 w2"
    and "giSt_dev w2 = giSt_dev w1" "giSt_ino w2 = giSt_ino w1"
    and "giNanoPrev w2 = giNanoPrev w1" "giNanoFastest w2 = giNanoFastest w1"
    and "trace w2 = trace w1 @ ev" "list_all P ev"
    and "\<And>k. k \<notin> touched ev \<Longrightarrow> map_of (fs w2) k = map_of (fs w1) k"
  shows "evolves P w w2"
proof (rule evolves_trans [where P = P, OF assms(1)])
  show "evolves P w1 w2"
    unfolding evolves_def using assms(2-) by (auto simp: throttle_inv_def)
qed

lemma evolves_log: "evolves P w w1 \<Longrightarrow> P e \<Longrightarrow> evolves P w (log_event e w1)"
  by (erule evolves_step [where ev = "[e]"]) (simp_all add: log_event_def same_settings_def)

lemma evolves_echo: "evolves P w w1 \<Longrightarrow> P (Echo s) \<Longrightarrow> evolves P w (EchoPrint s w1)"
  unfolding EchoPrint_def by (rule evolves_log) simp_all

lemma evolves_fields:
  assumes "evolves P w w1"
  shows "evolves P w (w1\<lparr>gszErr := a\<rparr>)"
    and "evolves P w (w1\<lparr>keys := b\<rparr>)"
    and "evolves P w (w1\<lparr>giPauseAfterVerif := c\<rparr>)"
    and "evolves P w (w1\<lparr>giFileCount := d\<rparr>)"
    and "evolves P w (w1\<lparr>giCopyByteCount := f\<rparr>)"
    and "evolves P w (w1\<lparr>giTotalByteCount := g\<rparr>)"
    and "evolves P w (w1\<lparr>ticks := h\<rparr>)"
  by (rule evolves_step [where P = P, OF assms, where ev = "[]"]; simp add: same_settings_def)+

lemma evolves_timing:
  assumes "evolves P w w1"
  shows "evolves P w (TimedCopyFile_timing elapsed iRead w1)"
proof (rule evolves_trans [where P = P, OF assms])
  have "throttle_inv (TimedCopyFile_timing elapsed iRead w1)" by (rule timing_inv)
  then show "evolves P w1 (TimedCopyFile_timing elapsed iRead w1)"
    unfolding evolves_def by (simp add: TimedCopyFile_timing_def Let_def same_settings_def)
qed

lemma evolves_guard:
  assumes "evolves P w w1" "\<not> (giSt_dev w1 \<noteq> 0 \<or> giSt_ino w1 \<noteq> 0)"
  shows "evolves P w (w1\<lparr>giSt_dev := a, giSt_ino := b\<rparr>)"
proof (rule evolves_trans [where P = P, OF assms(1)])
  show "evolves P w1 (w1\<lparr>giSt_dev := a, giSt_ino := b\<rparr>)"
    unfolding evolves_def using assms(2) by (simp add: same_settings_def throttle_inv_def)
qed

lemma map_of_replace:
  "map_of (map (\<lambda>kv. if fst kv = k then (k, n) else kv) al) k'
     = (if k' = k \<and> k \<in> fst ` set al then Some n else map_of al k')"
  by (induction al) force+

lemma map_of_fs_put: "map_of (fs_put k n al) k' = (if k' = k then Some n else map_of al k')"
proof (cases "k \<in> fst ` set al")
  case True
  then show ?thesis unfolding fs_put_def by (simp add: map_of_replace)
next
  case False
  then have "map_of al k = None" by (simp add: map_of_eq_None_iff)
  then show ?thesis using False unfolding fs_put_def by (auto simp: map_add_def split: option.splits)
qed

lemma map_of_fs_remove: "map_of (fs_remove k al) k' = (if k' = k then None else map_of al k')"
  unfolding fs_remove_def by (induction al) auto

lemma sys_call_step:
  assumes "evolves P w w1" "P e" "target e = Some p"
    and "w2 = log_event e w1 \<or> (\<exists>al. w2 = (log_event e w1)\<lparr>fs := al\<rparr>
            \<and> (\<forall>k. k \<noteq> key_of p \<longrightarrow> map_of al k = map_of (fs w1) k))
          \<or> (\<exists>al i. w2 = (log_event e w1)\<lparr>fs := al, next_ino := i\<rparr>
            \<and> (\<forall>k. k \<noteq> key_of p \<longrightarrow> map_of al k = map_of (fs w1) k))"
  shows "evolves P w w2"
proof (rule evolves_step [where P = P, OF assms(1), where ev = "[e]"])
  show "same_settings w1 w2" "giSt_dev w2 = giSt_dev w1" "giSt_ino w2 = giSt_ino w1"
    "giNanoPrev w2 = giNanoPrev w1" "giNanoFastest w2 = giNanoFastest w1"
    "trace w2 = trace w1 @ [e]"
    using assms(4) by (auto simp add: log_event_def same_settings_def)
  show "list_all P [e]" using assms(2) by simp
  show "map_of (fs w2) k = map_of (fs w1) k" if "k \<notin> touched [e]" for k
    using that assms(3,4) by (auto simp add: log_event_def)
qed

lemma evolves_unlink:
  assumes "evolves P w w1" "P (Unlink p)"
  shows "evolves P w (snd (sys_unlink p w1))"
  by (rule sys_call_step [OF assms, where p = p])
     (auto simp: sys_unlink_def Let_def map_of_fs_remove log_event_def split: option.splits)

lemma evolves_creat:
  assumes "evolves P w w1" "P (Creat p m)"
  shows "evolves P w (snd (sys_creat p m w1))"
  by (rule sys_call_step [OF assms, where p = p])
     (auto simp: sys_creat_def Let_def map_of_fs_put log_event_def split: option.splits)

lemma evolves_mkdir:
  assumes "evolves P w w1" "P (Mkdir p m)"
  shows "evolves P w (snd (sys_mkdir p m w1))"
  by (rule sys_call_step [OF assms, where p = p])
     (auto simp: sys_mkdir_def Let_def map_of_fs_put log_event_def split: option.splits)

lemma evolves_utimens:
  assumes "evolves P w w1" "P (Utimens p a b)"
  shows "evolves P w (snd (sys_utimens p a b w1))"
  by (rule sys_call_step [OF assms, where p = p])
     (auto simp: sys_utimens_def Let_def map_of_fs_put log_event_def split: option.splits)

lemma evolves_write:
  assumes "evolves P w w1" "P (Write p b)"
  shows "evolves P w (snd (sys_write p b w1))"
  by (rule sys_call_step [OF assms, where p = p])
     (auto simp: sys_write_def Let_def map_of_fs_put log_event_def split: option.splits)

lemma evolves_open_read:
  "evolves P w w1 \<Longrightarrow> P (OpenRead p) \<Longrightarrow> evolves P w (snd (sys_open_read p w1))"
  by (simp add: sys_open_read_def evolves_log)

lemma evolves_opendir:
  "evolves P w w1 \<Longrightarrow> P (Opendir p) \<Longrightarrow> evolves P w (snd (sys_opendir p w1))"
  by (simp add: sys_opendir_def evolves_log)

lemma evolves_NanoTime: "evolves P w w1 \<Longrightarrow> evolves P w (snd (NanoTime w1))"
  by (simp add: NanoTime_def evolves_fields)

lemma evolves_slowdown:
  "evolves P w w1 \<Longrightarrow> (\<And>e. quiet e \<Longrightarrow> P e) \<Longrightarrow> evolves P w (TimedCopyFile_slowdown n w1)"
  by (simp add: TimedCopyFile_slowdown_def Let_def evolves_log quiet_def)

lemma evolves_andthen:
  assumes "evolves P w (snd r)"
    and "\<And>a w1. evolves P w w1 \<Longrightarrow> evolves P w (snd (f a w1))"
  shows "evolves P w (snd (andthen r f))"
  using assms by (cases r) (auto simp: andthen_def split: option.splits)

lemma evolves_KeyboardLoop:
  assumes P: "\<And>e. quiet e \<Longrightarrow> P e"
  shows "evolves P w w1 \<Longrightarrow> evolves P w (snd (KeyboardLoop ks p w1))"
proof (induction ks arbitrary: p w1)
  case Nil
  then show ?case by (auto intro: evolves_fields)
next
  case (Cons k ks)
  show ?case
  proof (cases k)
    case None
    then show ?thesis using Cons by (auto intro: evolves_fields)
  next
    case (Some i)
    have echo: "evolves P w (EchoPrint s w1)" for s
      using Cons.prems P by (intro evolves_echo) (simp_all add: quiet_def)
    have echo': "evolves P w (EchoPrint s (w1\<lparr>giPauseAfterVerif := True\<rparr>))" for s
      using Cons.prems P by (intro evolves_echo evolves_fields) (simp_all add: quiet_def)
    have sleep: "evolves P w x \<Longrightarrow> evolves P w (log_event (Usleep 3000) x)" for x
      using P by (intro evolves_log) (simp_all add: quiet_def)
    show ?thesis
      unfolding Some
      using Cons.IH echo echo' sleep Cons.prems
      by (simp add: Let_def) (auto intro: evolves_fields)
  qed
qed

lemma evolves_KeyboardCheck:
  "evolves P w w1 \<Longrightarrow> (\<And>e. quiet e \<Longrightarrow> P e) \<Longrightarrow> evolves P w (snd (KeyboardCheck i w1))"
  unfolding KeyboardCheck_def Let_def
  by (rule evolves_KeyboardLoop) (auto intro: evolves_echo simp: quiet_def)


lemma settings_log [simp]:
  "giTestRun (log_event e w) = giTestRun w" "giFaster (log_event e w) = giFaster w"
  "giTestRun (EchoPrint s w) = giTestRun w" "giFaster (EchoPrint s w) = giFaster w"
  "uninit_stat (log_event e w) = uninit_stat w" "uninit_stat (EchoPrint s w) = uninit_stat w"
  by (simp_all add: EchoPrint_def log_event_def)

lemma evolves_settings:
  "evolves P w w1 \<Longrightarrow> giTestRun w1 = giTestRun w \<and> giFaster w1 = giFaster w
     \<and> faults w1 = faults w \<and> uninit_stat w1 = uninit_stat w"
  by (simp add: evolves_def same_settings_def)

lemma file_events_quiet: "quiet e \<Longrightarrow> file_events dry m src dst e"
  by (cases e) (simp_all add: quiet_def file_events_def)

lemma evolves_FilenameChecksum_loop:
  assumes q: "\<And>e. quiet e \<Longrightarrow> P e"
  shows "evolves P w w1 \<Longrightarrow> evolves P w (snd (FilenameChecksum_loop bufs c w1))"
proof (induction bufs arbitrary: c w1)
  case Nil
  then show ?case
    by (auto intro!: evolves_andthen evolves_KeyboardCheck [where P = P, OF _ q])
next
  case (Cons buf bufs)
  then show ?case
    by (auto intro!: evolves_andthen evolves_KeyboardCheck [where P = P, OF _ q])
qed

lemma evolves_FilenameChecksum:
  assumes "evolves P w w1" and q: "\<And>e. quiet e \<Longrightarrow> P e" and r: "P (OpenRead p)"
  shows "evolves P w (snd (FilenameChecksum p w1))"
  using assms(1) unfolding FilenameChecksum_def Let_def
  by (auto split: sum.splits
        intro!: evolves_fields evolves_open_read [where P = P, OF _ r] evolves_FilenameChecksum_loop [where P = P, OF q])

lemma evolves_compare:
  assumes "evolves P w w1" and inc: "\<And>e. file_events (giTestRun w) 0 src dst e \<Longrightarrow> P e"
  shows "evolves P w (snd (TimedCopyFile_compare src dst l w1))"
proof -
  have q: "\<And>e. quiet e \<Longrightarrow> P e" using inc file_events_quiet by blast
  have t: "giTestRun w1 = giTestRun w" using assms(1) evolves_settings by blast
  have e: "P (Echo s)" for s using q by (simp add: quiet_def)
  show ?thesis
  proof (cases "giTestRun w")
    case True
    then show ?thesis
      unfolding TimedCopyFile_compare_def Let_def using assms(1) t
      by (auto intro!: evolves_echo [where P = P, OF _ e])
  next
    case False
    have r: "P (OpenRead src)" "P (OpenRead dst)"
      using inc False by (simp_all add: file_events_def)
    show ?thesis
      unfolding TimedCopyFile_compare_def Let_def using assms(1) t
      by (auto intro!: evolves_andthen evolves_FilenameChecksum [where P = P, OF _ q r(1)]
            evolves_FilenameChecksum [where P = P, OF _ q r(2)] evolves_echo [where P = P, OF _ e])
  qed
qed

lemma evolves_delete:
  assumes "evolves P w w1" and inc: "\<And>e. file_events (giTestRun w) 0 src dst e \<Longrightarrow> P e"
  shows "evolves P w (snd (TimedCopyFile_delete dst l w1))"
proof -
  have q: "\<And>e. quiet e \<Longrightarrow> P e" using inc file_events_quiet by blast
  have t: "giTestRun w1 = giTestRun w" using assms(1) evolves_settings by blast
  have e: "P (Echo s)" for s using q by (simp add: quiet_def)
  show ?thesis
  proof (cases "giTestRun w")
    case True
    then show ?thesis
      unfolding TimedCopyFile_delete_def Let_def using assms(1) t
      by (auto intro!: evolves_echo [where P = P, OF _ e])
  next
    case False
    have r: "P (Unlink dst)" using inc False by (simp_all add: file_events_def)
    show ?thesis
      unfolding TimedCopyFile_delete_def Let_def using assms(1) t
      by (auto split: option.splits
            intro!: evolves_fields evolves_unlink [where P = P, OF _ r] evolves_echo [where P = P, OF _ e])
  qed
qed

lemma evolves_discard:
  assumes "evolves P w w1" and q: "\<And>e. quiet e \<Longrightarrow> P e" and r: "P (Unlink dst)"
  shows "evolves P w (TimedCopyFile_discard dst w1)"
proof -
  have e: "P (Warning s)" for s using q by (simp add: quiet_def)
  show ?thesis
    unfolding TimedCopyFile_discard_def Let_def using assms(1)
    by (auto split: option.splits intro!: evolves_log [where P = P, OF _ e] evolves_unlink [where P = P, OF _ r])
qed

lemma evolves_write_step:
  assumes "evolves P w w1" and q: "\<And>e. quiet e \<Longrightarrow> P e" and r: "P (Write dst buf)"
  shows "evolves P w (snd (TimedCopyFile_write dst buf l w1))"
  unfolding TimedCopyFile_write_def Let_def using assms(1)
  by (auto intro!: evolves_fields evolves_timing evolves_NanoTime evolves_write [where P = P, OF _ r]
        evolves_slowdown [where P = P, OF _ q])

lemma evolves_iter:
  assumes "evolves P w w1" and q: "\<And>e. quiet e \<Longrightarrow> P e" and r: "\<And>b. P (Write dst b)"
  shows "evolves P w (snd (TimedCopyFile_iter dst buf l w1))"
  unfolding TimedCopyFile_iter_def Let_def using assms(1)
  by (auto intro!: evolves_andthen evolves_KeyboardCheck [where P = P, OF _ q] evolves_write_step [where P = P, OF _ q r])

lemma evolves_loop:
  assumes q: "\<And>e. quiet e \<Longrightarrow> P e" and wr: "\<And>b. P (Write dst b)"
  shows "evolves P w w1 \<Longrightarrow> evolves P w (snd (TimedCopyFile_loop bufs dst l w1))"
proof (induction bufs arbitrary: l w1)
  case Nil
  then show ?case by (auto intro!: evolves_iter [where P = P, OF _ q wr])
next
  case (Cons buf bufs)
  then show ?case by (auto intro!: evolves_andthen evolves_iter [where P = P, OF _ q wr])
qed

lemma evolves_transfer:
  assumes "evolves P w w1" and q: "\<And>e. quiet e \<Longrightarrow> P e" and wr: "\<And>b. P (Write dst b)"
    and rd: "P (OpenRead src)" and cr: "\<And>m. P (Creat dst m)"
  shows "evolves P w (snd (TimedCopyFile_transfer src dst l w1))"
  unfolding TimedCopyFile_transfer_def Let_def using assms(1)
  by (auto split: sum.splits option.splits
        intro!: evolves_fields evolves_loop [where P = P, OF q wr] evolves_creat [where P = P, OF _ cr]
          evolves_open_read [where P = P, OF _ rd])

lemma evolves_check:
  assumes "evolves P w w1"
  shows "evolves P w (snd (TimedCopyFile_check src l w1))"
  unfolding TimedCopyFile_check_def using assms
  by (auto intro!: evolves_fields)

lemma evolves_retime:
  assumes "evolves P w w1" and r: "\<And>a b. P (Utimens dst a b)"
  shows "evolves P w (snd (TimedCopyFile_retime src dst l w1))"
  unfolding TimedCopyFile_retime_def Let_def using assms(1)
  by (auto split: option.splits intro!: evolves_fields evolves_utimens [where P = P, OF _ r])

lemma evolves_copy:
  assumes "evolves P w w1" and inc: "\<And>e. file_events (giTestRun w) 0 src dst e \<Longrightarrow> P e"
  shows "evolves P w (snd (TimedCopyFile_copy src dst l w1))"
proof -
  have q: "\<And>e. quiet e \<Longrightarrow> P e" using inc file_events_quiet by blast
  have t: "giTestRun w1 = giTestRun w" using assms(1) evolves_settings by blast
  have e: "P (Echo s)" for s using q by (simp add: quiet_def)
  show ?thesis
  proof (cases "giTestRun w")
    case True
    then show ?thesis
      unfolding TimedCopyFile_copy_def Let_def using assms(1) t
      by (auto intro!: evolves_echo [where P = P, OF _ e])
  next
    case False
    have wet: "P (Write dst b)" "P (OpenRead src)" "P (OpenRead dst)" "P (Creat dst m)"
      "P (Utimens dst x y)" "P (Unlink dst)" for b m x y
      using inc False by (simp_all add: file_events_def)
    show ?thesis
      unfolding TimedCopyFile_copy_def Let_def using assms(1) t False
      by (auto intro!: evolves_andthen evolves_retime [where P = P, OF _ wet(5)]
            evolves_discard [where P = P, OF _ q wet(6)] evolves_check
            evolves_transfer [where P = P, OF _ q wet(1) wet(2) wet(4)] evolves_echo [where P = P, OF _ e])
  qed
qed

lemma evolves_verify:
  assumes "evolves P w w1" and inc: "\<And>e. file_events (giTestRun w) 0 src dst e \<Longrightarrow> P e"
  shows "evolves P w (snd (TimedCopyFile_verify dst l w1))"
proof -
  have q: "\<And>e. quiet e \<Longrightarrow> P e" using inc file_events_quiet by blast
  have t: "giTestRun w1 = giTestRun w" using assms(1) evolves_settings by blast
  have e: "P (Echo s)" for s using q by (simp add: quiet_def)
  show ?thesis
  proof (cases "giTestRun w")
    case True
    then show ?thesis
      unfolding TimedCopyFile_verify_def Let_def using assms(1) t
      by (auto intro!: evolves_echo [where P = P, OF _ e])
  next
    case False
    have wet: "P (Write dst b)" "P (OpenRead src)" "P (OpenRead dst)" "P (Creat dst m)"
      "P (Utimens dst x y)" "P (Unlink dst)" for b m x y
      using inc False by (simp_all add: file_events_def)
    show ?thesis
      unfolding TimedCopyFile_verify_def Let_def using assms(1) t False
      by (auto intro!: evolves_andthen evolves_discard [where P = P, OF _ q wet(6)] evolves_fields
            evolves_FilenameChecksum [where P = P, OF _ q wet(3)] evolves_echo [where P = P, OF _ e])
  qed
qed

lemma evolves_update:
  assumes "evolves P w w1" and inc: "\<And>e. file_events (giTestRun w) 0 src dst e \<Longrightarrow> P e"
  shows "evolves P w (snd (TimedCopyFile_update src dst l w1))"
  unfolding TimedCopyFile_update_def Let_def using assms(1)
  by (auto intro!: evolves_andthen evolves_verify [where P = P, OF _ inc]
        evolves_copy [where P = P, OF _ inc] evolves_delete [where P = P, OF _ inc])

lemma evolves_unlink_source:
  assumes "evolves P w w1" and inc: "\<And>e. file_events (giTestRun w) iMode src dst e \<Longrightarrow> P e"
  shows "evolves P w (snd (TimedCopyFile_unlink_source iMode src dst l w1))"
proof -
  have q: "\<And>e. quiet e \<Longrightarrow> P e" using inc file_events_quiet by blast
  have t: "giTestRun w1 = giTestRun w" using assms(1) evolves_settings by blast
  have e: "P (Echo s)" for s using q by (simp add: quiet_def)
  show ?thesis
  proof (cases "\<not> giTestRun w \<and> iMode = 1")
    case True
    have r: "P (Unlink src)" using inc True by (simp_all add: file_events_def)
    show ?thesis
      unfolding TimedCopyFile_unlink_source_def Let_def using assms(1) t
      by (auto split: option.splits
            intro!: evolves_fields evolves_unlink [where P = P, OF _ r] evolves_echo [where P = P, OF _ e])
  next
    case False
    then show ?thesis
      unfolding TimedCopyFile_unlink_source_def Let_def using assms(1) t
      by (auto intro!: evolves_echo [where P = P, OF _ e])
  qed
qed

lemma evolves_count:
  assumes "evolves P w w1" and q: "\<And>e. quiet e \<Longrightarrow> P e"
  shows "evolves P w (snd (TimedCopyFile_count w1))"
proof -
  have e: "P (Echo s)" "P (Usleep n)" for s n using q by (simp_all add: quiet_def)
  show ?thesis
    unfolding TimedCopyFile_count_def Let_def using assms(1)
    by (auto intro!: evolves_fields evolves_KeyboardCheck [where P = P, OF _ q] evolves_log [where P = P, OF _ e(2)]
          evolves_echo [where P = P, OF _ e(1)])
qed

lemma file_events_mode: "file_events dry 0 src dst e \<Longrightarrow> file_events dry m src dst e"
  by (cases e) (simp_all add: file_events_def)

lemma probe_world:
  "snd (TimedCopyFile_probe src dst w1)
     = (if fst (FilenameExist w1 src (uninit_stat w1)) then w1
        else w1\<lparr>gszErr := ''File '' @ StringShortner src (LNSZ - 80) @ '' Not Found!''\<rparr>)"
  by (simp add: TimedCopyFile_probe_def Let_def)

lemma evolves_replicate:
  assumes "evolves P w w1" and inc: "\<And>e. file_events (giTestRun w) 0 src dst e \<Longrightarrow> P e"
  shows "evolves P w (snd (TimedCopyFile_replicate src dst w1))"
proof -
  have p: "evolves P w (snd (TimedCopyFile_probe src dst w1))"
    unfolding probe_world using assms(1) by (auto intro: evolves_fields)
  show ?thesis
    unfolding TimedCopyFile_replicate_def Let_def using p
    by (auto intro!: evolves_andthen evolves_update [where P = P, OF _ inc]
          evolves_compare [where P = P, OF _ inc])
qed

lemma evolves_TimedCopyFile:
  assumes "evolves P w w1" and inc: "\<And>e. file_events (giTestRun w) iMode src dst e \<Longrightarrow> P e"
  shows "evolves P w (snd (TimedCopyFile iMode src dst w1))"
proof -
  have q: "\<And>e. quiet e \<Longrightarrow> P e" using inc file_events_quiet by blast
  have m: "\<And>e. file_events (giTestRun w) 0 src dst e \<Longrightarrow> P e"
    using inc file_events_mode by blast
  show ?thesis
    unfolding TimedCopyFile_def Let_def using assms(1)
    by (auto intro!: evolves_andthen evolves_count [where P = P, OF _ q]
          evolves_unlink_source [where P = P, OF _ inc]
          evolves_replicate [where P = P, OF _ m])
qed

lemma run_events_file: "file_events dry m src dst e \<Longrightarrow> run_events dry e"
  by (cases e) (simp_all add: file_events_def run_events_def)

lemma run_events_quiet: "quiet e \<Longrightarrow> run_events dry e"
  by (cases e) (simp_all add: quiet_def run_events_def)

lemma evolves_DirectoryValidate_mkdir:
  assumes "evolves P w w1" and q: "\<And>e. quiet e \<Longrightarrow> P e" and mk: "\<And>p m. P (Mkdir p m)"
  shows "evolves P w (snd (snd (DirectoryValidate_mkdir p buf w1)))"
proof -
  have e: "P (Echo s)" for s using q by (simp add: quiet_def)
  show ?thesis
    unfolding DirectoryValidate_mkdir_def Let_def using assms(1)
    by (auto split: option.splits
          intro!: evolves_fields evolves_mkdir [where P = P, OF _ mk]
            evolves_echo [where P = P, OF _ e])
qed

lemma evolves_DirectoryValidate:
  assumes q: "\<And>e. quiet e \<Longrightarrow> P e" and mk: "\<And>p m. P (Mkdir p m)"
  shows "evolves P w w1 \<Longrightarrow> evolves P w (snd (snd (DirectoryValidate p buf w1)))"
proof (induction p buf w1 rule: DirectoryValidate.induct)
  case (1 szPathname buf w1)
  note mkd = evolves_DirectoryValidate_mkdir [where P = P, OF _ q mk]
  show ?case
    apply (subst DirectoryValidate.simps)
    using "1.prems" "1.IH"
    by (auto simp: Let_def split: prod.splits bool.splits intro!: mkd)
qed


lemma evolves_entry:
  assumes "evolves P w w1" and inc: "\<And>e. run_events (giTestRun w) e \<Longrightarrow> P e"
    and rec: "\<And>s d w2. evolves P w w2 \<Longrightarrow> evolves P w (snd (recurse s d w2))"
  shows "evolves P w (snd (TimedCopy_entry recurse iMode sd dd entry w1))"
proof -
  have q: "\<And>e. quiet e \<Longrightarrow> P e" using inc run_events_quiet by blast
  have mk: "\<And>p m. P (Mkdir p m)" using inc by (simp add: run_events_def)
  have f: "\<And>e. file_events (giTestRun w) iMode s d e \<Longrightarrow> P e" for s d
    using inc run_events_file by blast
  show ?thesis
    unfolding TimedCopy_entry_def Let_def using assms(1)
    by (auto intro!: evolves_fields rec evolves_TimedCopyFile [where P = P, OF _ f]
          evolves_DirectoryValidate [where P = P, OF q mk])
qed

lemma evolves_entries:
  assumes inc: "\<And>e. run_events (giTestRun w) e \<Longrightarrow> P e"
    and rec: "\<And>s d w2. evolves P w w2 \<Longrightarrow> evolves P w (snd (recurse s d w2))"
  shows "evolves P w w1 \<Longrightarrow> evolves P w (snd (TimedCopy_entries recurse iMode sd dd es w1))"
proof (induction es arbitrary: w1)
  case Nil
  then show ?case by simp
next
  case (Cons entry es)
  then show ?case
    by (auto intro!: evolves_andthen evolves_entry [where P = P, OF _ inc rec])
qed

lemma evolves_mirror_entry:
  assumes "evolves P w w1" and inc: "\<And>e. run_events (giTestRun w) e \<Longrightarrow> P e"
  shows "evolves P w (TimedCopy_mirror_entry sd dd entry w1)"
proof -
  have q: "\<And>e. quiet e \<Longrightarrow> P e" using inc run_events_quiet by blast
  have t: "giTestRun w1 = giTestRun w" using assms(1) evolves_settings by blast
  have e: "P (Echo s)" "P (Warning s)" for s using q by (simp_all add: quiet_def)
  have r: "\<not> giTestRun w \<Longrightarrow> P (Unlink p)" for p using inc by (simp add: run_events_def)
  show ?thesis
  proof (cases "giTestRun w")
    case True
    then show ?thesis
      unfolding TimedCopy_mirror_entry_def Let_def using assms(1) t
      by (auto intro!: evolves_echo [where P = P, OF _ e(1)])
  next
    case False
    show ?thesis
      unfolding TimedCopy_mirror_entry_def Let_def using assms(1) t
      by (auto split: option.splits
            intro!: evolves_log [where P = P, OF _ e(2)]
              evolves_unlink [where P = P, OF _ r [OF False]]
              evolves_echo [where P = P, OF _ e(1)])
  qed
qed

lemma evolves_mirror:
  assumes inc: "\<And>e. run_events (giTestRun w) e \<Longrightarrow> P e"
  shows "evolves P w w1 \<Longrightarrow> evolves P w (TimedCopy_mirror sd dd es w1)"
proof (induction es arbitrary: w1)
  case Nil
  then show ?case by simp
next
  case (Cons entry es)
  then show ?case
    by (auto intro!: evolves_mirror_entry [where P = P, OF _ inc])
qed

lemma evolves_directory:
  assumes "evolves P w w1" and inc: "\<And>e. run_events (giTestRun w) e \<Longrightarrow> P e"
    and rec: "\<And>s d w2. evolves P w w2 \<Longrightarrow> evolves P w (snd (recurse s d w2))"
  shows "evolves P w (snd (TimedCopy_directory recurse iMode sd dd w1))"
proof -
  have od: "P (Opendir p)" for p using inc by (simp add: run_events_def)
  show ?thesis
    unfolding TimedCopy_directory_def Let_def using assms(1)
    by (auto split: option.splits
          intro!: evolves_andthen evolves_mirror [where P = P, OF inc]
            evolves_entries [where P = P, OF inc rec]
            evolves_opendir [where P = P, OF _ od])
qed

lemma evolves_TimedCopy_guard:
  assumes "evolves P w w1"
  shows "evolves P w (snd (TimedCopy_guard sd dd w1))"
  unfolding TimedCopy_guard_def Let_def using assms
  by (auto intro!: evolves_guard)

lemma evolves_body:
  assumes "evolves P w w1" and inc: "\<And>e. run_events (giTestRun w) e \<Longrightarrow> P e"
    and rec: "\<And>s d w2. evolves P w w2 \<Longrightarrow> evolves P w (snd (recurse s d w2))"
  shows "evolves P w (snd (TimedCopy_body recurse iMode sd sf dd df w1))"
proof -
  have f: "\<And>e. file_events (giTestRun w) iMode s d e \<Longrightarrow> P e" for s d
    using inc run_events_file by blast
  show ?thesis
    unfolding TimedCopy_body_def Let_def using assms(1)
    by (auto intro!: evolves_fields evolves_TimedCopyFile [where P = P, OF _ f]
          evolves_directory [where P = P, OF _ inc rec] evolves_TimedCopy_guard)
qed

lemma evolves_TimedCopy:
  assumes inc: "\<And>e. run_events (giTestRun w) e \<Longrightarrow> P e"
  shows "evolves P w w1 \<Longrightarrow> evolves P w (snd (TimedCopy n iMode sd sf dd df w1))"
proof (induction n arbitrary: sd sf dd df w1)
  case 0
  then show ?case by simp
next
  case (Suc n)
  have rec: "evolves P w w2 \<Longrightarrow> evolves P w (snd (TimedCopy n iMode s [] d [] w2))"
    for s d w2 by (rule Suc.IH)
  show ?case
    unfolding TimedCopy.simps
    by (rule evolves_body [where P = P, OF Suc.prems]) (erule inc, erule rec)
qed

text \<open>
  C4. The claim is that the elapsed time of a write, read from the system clock when
  the clock read succeeds, becomes \<^verbatim>\<open>giNanoPrev\<close>. \<^verbatim>\<open>clock_gettime\<close> returns 0
  when it succeeds, and \<^verbatim>\<open>NanoTime\<close> then returns 0: with a clock that always
  succeeds, whatever times it reports, \<^verbatim>\<open>giNanoPrev\<close> is 0 after every write.
\<close>

lemma NanoTime_fst: "fst (NanoTime w) = NanoTime_of (clock w (ticks w))"
  by (simp add: NanoTime_def)

lemma timing_prev:
  "giNanoPrev (TimedCopyFile_timing elapsed iRead w)
     = (if iRead \<noteq> LNBIGBUFFER then (elapsed * of_nat LNBIGBUFFER) div of_nat iRead else elapsed)"
  by (simp add: TimedCopyFile_timing_def Let_def)

lemma write_prev:
  "giNanoPrev (snd (TimedCopyFile_write dst buf l w))
     = giNanoPrev (TimedCopyFile_timing
         (fst (NanoTime (snd (sys_write dst buf (snd (NanoTime (TimedCopyFile_slowdown (length buf)
              (w\<lparr>giCopyByteCount := giCopyByteCount w + int (length buf),
                 giTotalByteCount := giTotalByteCount w + int (length buf)\<rparr>)))))))
          - fst (NanoTime (TimedCopyFile_slowdown (length buf)
              (w\<lparr>giCopyByteCount := giCopyByteCount w + int (length buf),
                 giTotalByteCount := giTotalByteCount w + int (length buf)\<rparr>))))
         (length buf) w)"
  by (simp add: TimedCopyFile_write_def Let_def timing_prev)

theorem C4_working_clock_records_zero:
  "NanoTime_of (0, sec, nsec) = 0
   \<and> giNanoPrev (snd (TimedCopyFile_write szDestFilename buf l
                         (w\<lparr>clock := (\<lambda>n. (0, f n, g n))\<rparr>))) = 0"
proof -
  let ?w = "w\<lparr>clock := (\<lambda>n. (0, f n, g n))\<rparr>"
  have zero: "NanoTime_of (0, a, b) = 0" for a b by (simp add: NanoTime_of_def)
  have clk: "clock w1 = (\<lambda>n. (0, f n, g n)) \<Longrightarrow> fst (NanoTime w1) = 0" for w1
    by (simp add: NanoTime_fst zero)
  have ev: "evolves (\<lambda>e. True) ?w w1 \<Longrightarrow> clock w1 = (\<lambda>n. (0, f n, g n))" for w1
    by (simp add: evolves_def same_settings_def)
  let ?w1 = "TimedCopyFile_slowdown (length buf)
              (?w\<lparr>giCopyByteCount := giCopyByteCount ?w + int (length buf),
                  giTotalByteCount := giTotalByteCount ?w + int (length buf)\<rparr>)"
  have e1: "evolves (\<lambda>e. True) ?w ?w1"
    by (intro evolves_slowdown evolves_fields evolves_refl) simp
  have e2: "evolves (\<lambda>e. True) ?w (snd (sys_write szDestFilename buf (snd (NanoTime ?w1))))"
    by (intro evolves_write evolves_NanoTime e1) simp
  have "fst (NanoTime ?w1) = 0"
    "fst (NanoTime (snd (sys_write szDestFilename buf (snd (NanoTime ?w1))))) = 0"
    using clk [OF ev [OF e1]] clk [OF ev [OF e2]] by simp_all
  then have "giNanoPrev (snd (TimedCopyFile_write szDestFilename buf l ?w)) = 0"
    unfolding write_prev by (simp add: timing_prev)
  then show ?thesis using zero by simp
qed

subsection \<open>The test run\<close>

lemma stat_tree1:
  assumes "fs w = tree1"
  shows "sys_stat w ''src/'' = Some (stat_of (dir_node 2))"
    "sys_stat w ''dst/'' = Some (stat_of (dir_node 4))"
    "sys_stat w ''dst'' = Some (stat_of (dir_node 4))"
    "sys_stat w ''dst/sub/'' = None"
  using assms by (simp_all add: sys_stat_def tree1_def key_of_def is_dir_def dir_node_def)

lemma guard_tree1:
  "TimedCopy_guard ''src/'' ''dst/'' test_world = (0, test_world\<lparr>giSt_dev := 1, giSt_ino := 4\<rparr>)"
proof -
  have f: "fs test_world = tree1" "giSt_dev test_world = 0" "giSt_ino test_world = 0"
    by (simp_all add: test_world_def initial_world_def)
  show ?thesis
    by (simp add: TimedCopy_guard_def DirectoryExist_def stat_tree1 [OF f(1)] f
        stat_of_def dir_node_def Let_def)
qed

lemma listing_tree1:
  assumes "fs w = tree1" "faults w = (\<lambda>c. None)"
  shows "dir_listing w ''src/'' = Some [(''.'', 4), (''..'', 4), (''sub'', 4)]"
  using assms
  by (simp add: dir_listing_def stat_tree1 [OF assms(1)] stat_of_def dir_node_def is_dir_def
      key_of_def tree1_def dir_entry_def IFTODT_def Let_def)

lemma scan_dst_sub: "scan_slash ''dst/sub'' 7 = 3"
  by (simp add: eval_nat_numeral)

lemma validate_tree1:
  assumes "fs w = tree1" "faults w = (\<lambda>c. None)"
  shows "Mkdir ''dst/sub'' 0x41ED \<in> set (trace (snd (snd (DirectoryValidate ''dst/sub/'' buf w))))
       \<and> fst (DirectoryValidate ''dst/sub/'' buf w) = 0"
proof -
  have parent: "DirectoryValidate ''dst'' buf w = (0, stat_of (dir_node 4), w)"
    by (subst DirectoryValidate.simps)
       (simp add: DirectoryExist_def stat_tree1 [OF assms(1)] stat_of_def dir_node_def)
  have mk: "Mkdir ''dst/sub'' 0x41ED \<in> set (trace (snd (snd (DirectoryValidate_mkdir ''dst/sub'' (stat_of (dir_node 4)) w))))
     \<and> fst (DirectoryValidate_mkdir ''dst/sub'' (stat_of (dir_node 4)) w) = 0"
    using assms
    by (simp add: DirectoryValidate_mkdir_def sys_mkdir_def Let_def EchoPrint_def log_event_def
        stat_of_def dir_node_def key_of_def tree1_def split: option.splits)
  show ?thesis
    apply (subst DirectoryValidate.simps, subst (2) DirectoryValidate.simps)
    using mk
    by (simp add: DirectoryExist_def stat_tree1 [OF assms(1)] scan_dst_sub parent Let_def)
qed


lemma andthen_simps [simp]:
  "andthen (Some a, w) f = f a w"
  "andthen (None, w) f = (None, w)"
  by (simp_all add: andthen_def)

lemma snd_andthen_keep: "(\<And>a w1. snd (f a w1) = w1) \<Longrightarrow> snd (andthen r f) = snd r"
  by (cases r) (auto simp: andthen_def split: option.splits)

lemma trace_grows: "evolves P w w' \<Longrightarrow> set (trace w) \<subseteq> set (trace w')"
  by (auto simp: evolves_def)

lemma dots_tree1:
  "TimedCopy_entry rec iMode sd dd (''.'', t) w = (Some 0, w)"
  "TimedCopy_entry rec iMode sd dd (''..'', t) w = (Some 0, w)"
  by (simp_all add: TimedCopy_entry_def)

lemma entry_tree1:
  assumes "fs w = tree1" "faults w = (\<lambda>c. None)"
  shows "TimedCopy_entry rec 0 ''src/'' ''dst/'' (''sub'', 4) w
      = rec ''src/sub/'' ''dst/sub/'' (snd (snd (DirectoryValidate ''dst/sub/'' (uninit_stat w) w)))"
  using validate_tree1 [OF assms, of "uninit_stat w"]
  by (simp add: TimedCopy_entry_def add_slash_def Let_def)

lemma entries_tree1:
  assumes "fs w = tree1" "faults w = (\<lambda>c. None)"
  shows "snd (TimedCopy_entries rec 0 ''src/'' ''dst/'' [(''.'', 4), (''..'', 4), (''sub'', 4)] w)
      = snd (rec ''src/sub/'' ''dst/sub/'' (snd (snd (DirectoryValidate ''dst/sub/'' (uninit_stat w) w))))"
  by (simp add: dots_tree1 entry_tree1 [OF assms] snd_andthen_keep)

lemma directory_tree1:
  assumes "fs w = tree1" "faults w = (\<lambda>c. None)"
  defines "w2 \<equiv> snd (snd (DirectoryValidate ''dst/sub/'' (uninit_stat w)
                               (log_event (Opendir ''src/'') w)))"
  shows "snd (TimedCopy_directory rec 0 ''src/'' ''dst/'' w) = snd (rec ''src/sub/'' ''dst/sub/'' w2)"
    and "Mkdir ''dst/sub'' 0x41ED \<in> set (trace w2)"
proof -
  let ?wo = "log_event (Opendir ''src/'') w"
  have f: "fs ?wo = tree1" "faults ?wo = (\<lambda>c. None)" and u: "uninit_stat ?wo = uninit_stat w"
    using assms(1,2) by (simp_all add: log_event_def)
  show "snd (TimedCopy_directory rec 0 ''src/'' ''dst/'' w) = snd (rec ''src/sub/'' ''dst/sub/'' w2)"
    unfolding TimedCopy_directory_def Let_def sys_opendir_def w2_def
    by (simp add: listing_tree1 [OF assms(1,2)] snd_andthen_keep entries_tree1 [OF f]
             del: TimedCopy_entries.simps)
  show "Mkdir ''dst/sub'' 0x41ED \<in> set (trace w2)"
    unfolding w2_def using validate_tree1 [OF f, of "uninit_stat w"] by blast
qed

lemma test_run_tree1:
  "Mkdir ''dst/sub'' 0x41ED
     \<in> set (trace (snd (TimedCopy (Suc n) TCPY_MODE_COPY ''src/'' [] ''dst/'' [] test_world)))"
proof -
  let ?rec = "\<lambda>s d. TimedCopy n 0 s [] d []"
  let ?wg = "test_world\<lparr>giSt_dev := 1, giSt_ino := 4\<rparr>"
  let ?w2 = "snd (snd (DirectoryValidate ''dst/sub/'' (uninit_stat ?wg)
                               (log_event (Opendir ''src/'') ?wg)))"
  have f: "fs ?wg = tree1" "faults ?wg = (\<lambda>c. None)"
    by (simp_all add: test_world_def initial_world_def)
  note d = directory_tree1(1) [OF f, of ?rec] directory_tree1(2) [OF f]
  have run: "snd (TimedCopy (Suc n) 0 ''src/'' [] ''dst/'' [] test_world)
      = snd (TimedCopy_directory ?rec 0 ''src/'' ''dst/'' ?wg)"
    unfolding TimedCopy.simps TimedCopy_body_def guard_tree1 Let_def by simp
  have "evolves (\<lambda>e. True) ?w2 (snd (TimedCopy n 0 ''src/sub/'' [] ''dst/sub/'' [] ?w2))"
    by (rule evolves_TimedCopy [OF _ evolves_refl]) simp
  then have "set (trace ?w2) \<subseteq> set (trace (snd (TimedCopy n 0 ''src/sub/'' [] ''dst/sub/'' [] ?w2)))"
    by (rule trace_grows)
  then show ?thesis
    unfolding run d(1) using d(2) by blast
qed

text \<open>
  C3, as stated, fails for directories: \<^verbatim>\<open>DirectoryValidate\<close> does not look at the
  test-run flag, so a test run of \<^verbatim>\<open>src/\<close> to \<^verbatim>\<open>dst/\<close>, where \<^verbatim>\<open>src/sub\<close>
  exists and \<^verbatim>\<open>dst/sub\<close> does not, calls \<^verbatim>\<open>mkdir\<close> for \<^verbatim>\<open>dst/sub\<close>.
\<close>

theorem C3_test_run_mkdir_counterexample:
  "giTestRun test_world
   \<and> Mkdir ''dst/sub'' 0x41ED
       \<in> set (trace (snd (TimedCopy (Suc (Suc 0)) TCPY_MODE_COPY ''src/'' [] ''dst/'' []
                            test_world)))"
  using test_run_tree1 [of "Suc 0"] by (simp add: test_world_def)

lemma run_events_dry:
  assumes "run_events True e"
  shows "(\<forall>p. e \<noteq> Unlink p) \<and> (\<forall>p m. e \<noteq> Creat p m)
       \<and> (\<forall>p b. e \<noteq> Write p b) \<and> (\<forall>p a b. e \<noteq> Utimens p a b)"
    and "target e = Some p \<Longrightarrow> \<exists>m. e = Mkdir p m"
  using assms by (cases e; simp add: run_events_def)+

lemma test_run_file:
  fixes szDest :: string and iMode :: int
  assumes dry: "giTestRun w"
    and src: "sys_stat w szSource = Some st" "st_mode st AND S_IFREG \<noteq> 0"
    and cnt: "\<not> giPauseAfterVerif w" "giFileCount w + 1 < COPYCOUNT"
             "giCopyByteCount w \<le> 1073741824"
  defines "l \<equiv> fst (TimedCopyFile_probe szSource szDest w)"
    and "w' \<equiv> snd (TimedCopyFile iMode szSource szDest w)"
  shows "fst (TimedCopyFile iMode szSource szDest w) = Some 0"
    and "giFileCount w' = giFileCount w + 1"
    and "TimedCopyFile_differs l \<Longrightarrow>
           Echo (''Copy '' @ StringShortner szSource (LNSZ - 80) @ '' to ''
                   @ StringShortner szDest (LNSZ - 80)) \<in> set (trace w')"
proof -
  have p: "TimedCopyFile_probe szSource szDest w = (l, w)" "iErr l = 0"
    "iSourceChecksum l = 0" "iDestChecksum l = 0"
    unfolding l_def using src by (simp_all add: TimedCopyFile_probe_def FilenameExist_def Let_def)
  show "fst (TimedCopyFile iMode szSource szDest w) = Some 0"
    using dry cnt p(2-)
    by (simp add: TimedCopyFile_def TimedCopyFile_replicate_def p(1) TimedCopyFile_compare_def
        TimedCopyFile_update_def TimedCopyFile_delete_def TimedCopyFile_copy_def
        TimedCopyFile_verify_def TimedCopyFile_unlink_source_def TimedCopyFile_count_def
        EchoPrint_def log_event_def Let_def)
  show "giFileCount w' = giFileCount w + 1"
    unfolding w'_def using dry cnt p(2-)
    by (simp add: TimedCopyFile_def TimedCopyFile_replicate_def p(1) TimedCopyFile_compare_def
        TimedCopyFile_update_def TimedCopyFile_delete_def TimedCopyFile_copy_def
        TimedCopyFile_verify_def TimedCopyFile_unlink_source_def TimedCopyFile_count_def
        EchoPrint_def log_event_def Let_def)
  show "Echo (''Copy '' @ StringShortner szSource (LNSZ - 80) @ '' to ''
                   @ StringShortner szDest (LNSZ - 80)) \<in> set (trace w')"
    if "TimedCopyFile_differs l"
    unfolding w'_def using dry cnt p(2-) that
    by (simp add: TimedCopyFile_def TimedCopyFile_replicate_def p(1) TimedCopyFile_compare_def
        TimedCopyFile_update_def TimedCopyFile_delete_def TimedCopyFile_copy_def
        TimedCopyFile_verify_def TimedCopyFile_unlink_source_def TimedCopyFile_count_def
        EchoPrint_def log_event_def Let_def)
qed


text \<open>
  C3, amended. In a test run, whatever the mode, the arguments and the depth, the calls
  added to the trace contain no \<^verbatim>\<open>unlink\<close>, no creation of a file, no
  \<^verbatim>\<open>write\<close> and no \<^verbatim>\<open>utimensat\<close>, and the file system changes only at the
  paths given to \<^verbatim>\<open>mkdir\<close>. The comparison, the log and the counters still run: for
  a source that is a regular file, with no pause due, \<^verbatim>\<open>TimedCopyFile\<close> returns 0
  and counts the file, and when size or modification time differ it prints the line of
  the copy.
\<close>

theorem C3_test_run_creates_directories_only:
  assumes "giTestRun w"
  shows "(\<exists>ev. trace (snd (TimedCopy n iMode szSourceDir szSourceFile szDestDir szDestFile w))
                 = trace w @ ev
            \<and> (\<forall>e \<in> set ev. (\<forall>p. e \<noteq> Unlink p) \<and> (\<forall>p m. e \<noteq> Creat p m)
                              \<and> (\<forall>p b. e \<noteq> Write p b) \<and> (\<forall>p a b. e \<noteq> Utimens p a b))
            \<and> (\<forall>k. (\<forall>p m. Mkdir p m \<in> set ev \<longrightarrow> k \<noteq> key_of p) \<longrightarrow>
                   map_of (fs (snd (TimedCopy n iMode szSourceDir szSourceFile szDestDir
                                      szDestFile w))) k
                     = map_of (fs w) k))
       \<and> (sys_stat w szSource = Some st \<and> st_mode st AND S_IFREG \<noteq> 0
            \<and> \<not> giPauseAfterVerif w \<and> giFileCount w + 1 < COPYCOUNT
            \<and> giCopyByteCount w \<le> 1073741824 \<longrightarrow>
          fst (TimedCopyFile iMode szSource szDest w) = Some 0
          \<and> giFileCount (snd (TimedCopyFile iMode szSource szDest w)) = giFileCount w + 1
          \<and> (TimedCopyFile_differs (fst (TimedCopyFile_probe szSource szDest w)) \<longrightarrow>
               Echo (''Copy '' @ StringShortner szSource (LNSZ - 80) @ '' to ''
                       @ StringShortner szDest (LNSZ - 80))
                 \<in> set (trace (snd (TimedCopyFile iMode szSource szDest w)))))"
proof -
  let ?w' = "snd (TimedCopy n iMode szSourceDir szSourceFile szDestDir szDestFile w)"
  have "evolves (run_events True) w ?w'"
    by (rule evolves_TimedCopy) (simp_all add: assms)
  then obtain ev where ev: "trace ?w' = trace w @ ev" "list_all (run_events True) ev"
    "\<forall>k. k \<notin> touched ev \<longrightarrow> map_of (fs ?w') k = map_of (fs w) k"
    unfolding evolves_def by blast
  have dry: "(\<forall>p. e \<noteq> Unlink p) \<and> (\<forall>p m. e \<noteq> Creat p m)
            \<and> (\<forall>p b. e \<noteq> Write p b) \<and> (\<forall>p a b. e \<noteq> Utimens p a b)"
    and mk: "target e = Some p \<Longrightarrow> \<exists>m. e = Mkdir p m"
    if "e \<in> set ev" for e p
    using that ev(2) run_events_dry [of e] by (auto simp: list_all_iff)
  have "map_of (fs ?w') k = map_of (fs w) k"
    if "\<forall>p m. Mkdir p m \<in> set ev \<longrightarrow> k \<noteq> key_of p" for k
  proof -
    have "k \<notin> touched ev"
      unfolding touched_def using that mk by blast
    then show ?thesis using ev(3) by blast
  qed
  then have run: "\<exists>ev. trace ?w' = trace w @ ev
            \<and> (\<forall>e \<in> set ev. (\<forall>p. e \<noteq> Unlink p) \<and> (\<forall>p m. e \<noteq> Creat p m)
                              \<and> (\<forall>p b. e \<noteq> Write p b) \<and> (\<forall>p a b. e \<noteq> Utimens p a b))
            \<and> (\<forall>k. (\<forall>p m. Mkdir p m \<in> set ev \<longrightarrow> k \<noteq> key_of p) \<longrightarrow>
                   map_of (fs ?w') k = map_of (fs w) k)"
    using ev(1) dry by blast
  show ?thesis
    using run test_run_file [OF assms, where szSource = szSource and st = st and szDest = szDest
        and iMode = iMode] by blast
qed

theorem C3_test_run_witness:
  "giTestRun test_world
   \<and> (\<exists>ev. trace (snd (TimedCopy (Suc (Suc 0)) TCPY_MODE_COPY ''src/'' [] ''dst/'' [] test_world))
               = trace test_world @ ev
          \<and> (\<forall>e \<in> set ev. (\<forall>p. e \<noteq> Unlink p) \<and> (\<forall>p m. e \<noteq> Creat p m)
                            \<and> (\<forall>p b. e \<noteq> Write p b) \<and> (\<forall>p a b. e \<noteq> Utimens p a b)))
   \<and> fst (TimedCopyFile TCPY_MODE_COPY ''f'' ''g'' test_world) = Some 0
   \<and> giFileCount (snd (TimedCopyFile TCPY_MODE_COPY ''f'' ''g'' test_world)) = 1
   \<and> Echo ''Copy f to g'' \<in> set (trace (snd (TimedCopyFile TCPY_MODE_COPY ''f'' ''g'' test_world)))"
proof -
  have t: "giTestRun test_world" "\<not> giPauseAfterVerif test_world" "giFileCount test_world = 0"
    "giCopyByteCount test_world = 0" "fs test_world = tree1"
    by (simp_all add: test_world_def initial_world_def)
  have s: "sys_stat test_world ''f'' = Some (stat_of (file_node 5 [1, 2, 3]))"
    "sys_stat test_world ''g'' = None"
    "st_mode (stat_of (file_node 5 [1, 2, 3])) AND S_IFREG \<noteq> 0"
    by (simp_all add: sys_stat_def t(5) tree1_def key_of_def is_dir_def dir_node_def
        file_node_def stat_of_def)
  have d: "TimedCopyFile_differs (fst (TimedCopyFile_probe ''f'' ''g'' test_world))"
    by (simp add: TimedCopyFile_differs_def TimedCopyFile_probe_def FilenameExist_def s Let_def
        stat_of_def file_node_def)
  have n: "StringShortner ''f'' (LNSZ - 80) = ''f''" "StringShortner ''g'' (LNSZ - 80) = ''g''"
    by (simp_all add: StringShortner_def)
  from C3_test_run_creates_directories_only [OF t(1), of "Suc (Suc 0)" 0 "''src/''" "[]"
      "''dst/''" "[]" "''f''" "stat_of (file_node 5 [1, 2, 3])" "''g''"]
  show ?thesis using t s d n by auto
qed

subsection \<open>The traversal guard\<close>

lemma guard_kept:
  assumes "evolves P w w'" "giSt_dev w \<noteq> 0 \<or> giSt_ino w \<noteq> 0"
  shows "giSt_dev w' = giSt_dev w" "giSt_ino w' = giSt_ino w"
  using assms by (auto simp: evolves_def)

lemma guard_eval:
  assumes "sys_stat w sd = Some ss" "sys_stat w dd = Some st"
  shows "TimedCopy_guard sd dd w
     = (if st_mode ss AND S_IFDIR \<noteq> 0
        then (if st_dev ss = giSt_dev w \<and> st_ino ss = giSt_ino w then (ERROR_TCPY_CIRC, w)
              else if st_mode st AND S_IFDIR \<noteq> 0
              then (if giSt_dev w = 0 \<and> giSt_ino w = 0
                    then (0, w\<lparr>giSt_dev := st_dev st, giSt_ino := st_ino st\<rparr>) else (0, w))
              else (ERROR_TCPY_USAGE, w))
        else (ERROR_TCPY_USAGE, w))"
  unfolding TimedCopy_guard_def DirectoryExist_def Let_def assms
  by (cases "st_mode ss AND S_IFDIR = 0"; cases "st_mode st AND S_IFDIR = 0";
      cases "st_dev ss = giSt_dev w"; cases "st_ino ss = giSt_ino w";
      cases "giSt_dev w = 0"; cases "giSt_ino w = 0"; simp)


lemma guard_result:
  assumes ok: "fst (TimedCopy_guard sd dd w) = 0" and dst: "sys_stat w dd = Some st"
    and unset: "giSt_dev w = 0" "giSt_ino w = 0"
  shows "snd (TimedCopy_guard sd dd w) = w\<lparr>giSt_dev := st_dev st, giSt_ino := st_ino st\<rparr>"
proof (cases "sys_stat w sd")
  case None
  then show ?thesis
    using ok by (simp add: TimedCopy_guard_def DirectoryExist_def)
next
  case (Some ss)
  note ev = guard_eval [OF Some dst]
  have 1: "st_mode ss AND S_IFDIR \<noteq> 0"
  proof
    assume "st_mode ss AND S_IFDIR = 0"
    then have "TimedCopy_guard sd dd w = (ERROR_TCPY_USAGE, w)" unfolding ev by simp
    then show False using ok by simp
  qed
  have 2: "\<not> (st_dev ss = giSt_dev w \<and> st_ino ss = giSt_ino w)"
  proof
    assume "st_dev ss = giSt_dev w \<and> st_ino ss = giSt_ino w"
    then have "TimedCopy_guard sd dd w = (ERROR_TCPY_CIRC, w)" unfolding ev using 1 by simp
    then show False using ok by simp
  qed
  have 3: "st_mode st AND S_IFDIR \<noteq> 0"
  proof
    assume "st_mode st AND S_IFDIR = 0"
    then have "TimedCopy_guard sd dd w = (ERROR_TCPY_USAGE, w)" unfolding ev using 1 2 by simp
    then show False using ok by simp
  qed
  have "TimedCopy_guard sd dd w = (0, w\<lparr>giSt_dev := st_dev st, giSt_ino := st_ino st\<rparr>)"
    unfolding ev using 1 2 3 unset by simp
  then show ?thesis by simp
qed

lemma guard_circular:
  assumes "sys_stat w sd = Some ss" "st_mode ss AND S_IFDIR \<noteq> 0"
    "st_dev ss = giSt_dev w" "st_ino ss = giSt_ino w"
  shows "TimedCopy_guard sd dd w = (ERROR_TCPY_CIRC, w)"
  using assms by (simp add: TimedCopy_guard_def DirectoryExist_def Let_def)

lemma body_after_guard:
  assumes "sd \<noteq> dd" "fst (TimedCopy_guard sd dd w) = 0"
  shows "evolves (\<lambda>e. True) (snd (TimedCopy_guard sd dd w))
           (snd (TimedCopy (Suc n) iMode sd sf dd df w))"
proof -
  let ?wg = "snd (TimedCopy_guard sd dd w)"
  have rec: "evolves (\<lambda>e. True) ?wg (snd (TimedCopy n iMode s [] d [] w2))"
    if "evolves (\<lambda>e. True) ?wg w2" for s d w2
    using that by (rule evolves_TimedCopy [rotated]) simp
  have 1: "evolves (\<lambda>e. True) ?wg (snd (TimedCopyFile iMode (sd @ sf) (dd @ df) ?wg))"
    by (rule evolves_TimedCopyFile [OF evolves_refl]) simp
  have 2: "evolves (\<lambda>e. True) ?wg
             (snd (TimedCopy_directory (\<lambda>s d. TimedCopy n iMode s [] d []) iMode sd dd ?wg))"
    by (rule evolves_directory [where P = "\<lambda>e. True", OF evolves_refl]) (simp, erule rec)
  show ?thesis
    using assms 1 2 by (simp add: TimedCopy_body_def Let_def)
qed

lemma entries_abort:
  assumes "fst (TimedCopy_entry recurse iMode sd dd entry w) = Some e" "e \<noteq> 0"
  shows "TimedCopy_entries recurse iMode sd dd (entry # rest) w
           = TimedCopy_entry recurse iMode sd dd entry w"
  using assms by (cases "TimedCopy_entry recurse iMode sd dd entry w") (simp add: andthen_def)

lemma directory_abort:
  assumes "dir_listing w sd = Some es"
    "fst (TimedCopy_entries recurse iMode sd dd es (log_event (Opendir sd) w)) = Some e" "e \<noteq> 0"
  shows "TimedCopy_directory recurse iMode sd dd w
           = TimedCopy_entries recurse iMode sd dd es (log_event (Opendir sd) w)"
  using assms
  by (cases "TimedCopy_entries recurse iMode sd dd es (log_event (Opendir sd) w)")
     (simp add: TimedCopy_directory_def sys_opendir_def andthen_def)

lemma stat_tree1_sub:
  assumes "fs w = tree1"
  shows "sys_stat w ''src/sub'' = Some (stat_of (dir_node 3))"
    "sys_stat w ''src/sub/'' = Some (stat_of (dir_node 3))"
    "sys_stat w ''src/sub/sub/'' = None"
  using assms by (simp_all add: sys_stat_def tree1_def key_of_def is_dir_def dir_node_def)

lemma dir_node_stat [simp]:
  "st_dev (stat_of (dir_node i)) = 1" "st_ino (stat_of (dir_node i)) = i"
  "st_mode (stat_of (dir_node i)) = 0x41ED"
  by (simp_all add: stat_of_def dir_node_def)

lemma guard_loop:
  "TimedCopy_guard ''src/'' ''src/sub/'' loop_world
     = (0, loop_world\<lparr>giSt_dev := 1, giSt_ino := 3\<rparr>)"
proof -
  have f: "fs loop_world = tree1" "giSt_dev loop_world = 0" "giSt_ino loop_world = 0"
    by (simp_all add: loop_world_def initial_world_def)
  show ?thesis
    unfolding guard_eval [OF stat_tree1(1) [OF f(1)] stat_tree1_sub(2) [OF f(1)]]
    by (simp add: f)
qed

lemma scan_src_sub_sub: "scan_slash ''src/sub/sub'' 11 = 7"
  by (simp add: eval_nat_numeral)

lemma validate_loop:
  assumes "fs w = tree1" "faults w = (\<lambda>c. None)"
  shows "fst (DirectoryValidate ''src/sub/sub/'' buf w) = 0"
    and "Mkdir ''src/sub/sub'' 0x41ED
           \<in> set (trace (snd (snd (DirectoryValidate ''src/sub/sub/'' buf w))))"
    and "sys_stat (snd (snd (DirectoryValidate ''src/sub/sub/'' buf w))) ''src/sub/''
           = Some (stat_of (dir_node 3))"
proof -
  have parent: "DirectoryValidate ''src/sub'' buf w = (0, stat_of (dir_node 3), w)"
    by (subst DirectoryValidate.simps)
       (simp add: DirectoryExist_def stat_tree1_sub [OF assms(1)])
  have mk: "fst (DirectoryValidate_mkdir ''src/sub/sub'' (stat_of (dir_node 3)) w) = 0
      \<and> Mkdir ''src/sub/sub'' 0x41ED
          \<in> set (trace (snd (snd (DirectoryValidate_mkdir ''src/sub/sub'' (stat_of (dir_node 3)) w))))
      \<and> map_of (fs (snd (snd (DirectoryValidate_mkdir ''src/sub/sub'' (stat_of (dir_node 3)) w))))
           ''src/sub'' = Some (dir_node 3)"
    using assms
    by (simp add: DirectoryValidate_mkdir_def sys_mkdir_def Let_def EchoPrint_def log_event_def
        key_of_def tree1_def map_of_fs_put split: option.splits)
  have v: "DirectoryValidate ''src/sub/sub/'' buf w
         = DirectoryValidate_mkdir ''src/sub/sub'' (stat_of (dir_node 3)) w"
    by (subst DirectoryValidate.simps)
       (simp add: DirectoryExist_def stat_tree1_sub [OF assms(1)] scan_src_sub_sub parent Let_def)
  show "fst (DirectoryValidate ''src/sub/sub/'' buf w) = 0"
    and "Mkdir ''src/sub/sub'' 0x41ED
           \<in> set (trace (snd (snd (DirectoryValidate ''src/sub/sub/'' buf w))))"
    unfolding v using mk by simp_all
  show "sys_stat (snd (snd (DirectoryValidate ''src/sub/sub/'' buf w))) ''src/sub/''
           = Some (stat_of (dir_node 3))"
    unfolding v using mk by (simp add: sys_stat_def key_of_def is_dir_def dir_node_def)
qed

lemma entry_circular:
  assumes name: "d_name \<noteq> ''.''" "d_name \<noteq> ''..''" "int (length d_name) \<le> LNSZ"
      "d_name \<noteq> []"
    and dir: "d_type AND DT_DIR = DT_DIR"
    and ne: "sd \<noteq> dd"
    and val: "DirectoryValidate (add_slash (dd @ d_name)) (uninit_stat w) w = (0, buf, w2)"
    and src: "sys_stat w2 (add_slash (sd @ d_name)) = Some ss" "st_mode ss AND S_IFDIR \<noteq> 0"
      "st_dev ss = giSt_dev w2" "st_ino ss = giSt_ino w2"
  shows "TimedCopy_entry (\<lambda>s d. TimedCopy (Suc n) iMode s [] d []) iMode sd dd (d_name, d_type) w
           = (Some ERROR_TCPY_CIRC, w2)"
proof -
  have "add_slash (x @ d_name)
          = x @ (if last d_name = CHR ''/'' then d_name else d_name @ ''/'')" for x
    using name(4) by (simp add: add_slash_def)
  then have "add_slash (sd @ d_name) \<noteq> add_slash (dd @ d_name)"
    using ne by simp
  then have "TimedCopy (Suc n) iMode (add_slash (sd @ d_name)) [] (add_slash (dd @ d_name)) [] w2
      = (Some ERROR_TCPY_CIRC, w2)"
    using guard_circular [OF src] by (simp add: TimedCopy_body_def)
  then show ?thesis
    using name dir val by (simp add: TimedCopy_entry_def Let_def)
qed

lemma body_directory:
  assumes "sd \<noteq> dd" "fst (TimedCopy_guard sd dd w) = 0"
  shows "TimedCopy (Suc n) iMode sd [] dd df w
       = TimedCopy_directory (\<lambda>s d. TimedCopy n iMode s [] d []) iMode sd dd
           (snd (TimedCopy_guard sd dd w))"
  using assms by (simp add: TimedCopy_body_def Let_def)

lemma loop_directory:
  assumes f: "fs w = tree1" "faults w = (\<lambda>c. None)" and g: "giSt_dev w = 1" "giSt_ino w = 3"
  defines "wo \<equiv> log_event (Opendir ''src/'') w"
  defines "w2 \<equiv> snd (snd (DirectoryValidate ''src/sub/sub/'' (uninit_stat w) wo))"
  shows "TimedCopy_entry (\<lambda>s d. TimedCopy (Suc n) 0 s [] d []) 0 ''src/'' ''src/sub/''
           (''sub'', 4) wo = (Some ERROR_TCPY_CIRC, w2)"
    and "TimedCopy_directory (\<lambda>s d. TimedCopy (Suc n) 0 s [] d []) 0 ''src/'' ''src/sub/'' w
           = (Some ERROR_TCPY_CIRC, w2)"
    and "Mkdir ''src/sub/sub'' 0x41ED \<in> set (trace w2)"
    and "giSt_dev w2 = 1 \<and> giSt_ino w2 = 3"
    and "sys_stat w2 ''src/sub/'' = Some (stat_of (dir_node 3))"
    and "DirectoryValidate ''src/sub/sub/'' (uninit_stat w) wo
           = (0, fst (snd (DirectoryValidate ''src/sub/sub/'' (uninit_stat w) wo)), w2)"
    and "TimedCopy_entries (\<lambda>s d. TimedCopy (Suc n) 0 s [] d []) 0 ''src/'' ''src/sub/''
           [(''.'', 4), (''..'', 4), (''sub'', 4)] wo = (Some ERROR_TCPY_CIRC, w2)"
proof -
  let ?rec = "\<lambda>s d. TimedCopy (Suc n) 0 s [] d []"
  have fo: "fs wo = tree1" "faults wo = (\<lambda>c. None)" "giSt_dev wo = 1" "giSt_ino wo = 3"
    and u: "uninit_stat wo = uninit_stat w"
    using f g by (simp_all add: wo_def log_event_def)
  note v = validate_loop [OF fo(1,2), of "uninit_stat w", folded w2_def]
  show val: "DirectoryValidate ''src/sub/sub/'' (uninit_stat w) wo
           = (0, fst (snd (DirectoryValidate ''src/sub/sub/'' (uninit_stat w) wo)), w2)"
    using v(1) unfolding w2_def
    by (cases "DirectoryValidate ''src/sub/sub/'' (uninit_stat w) wo") simp
  have "evolves (\<lambda>e. True) wo w2"
    unfolding w2_def by (rule evolves_DirectoryValidate [OF _ _ evolves_refl]) simp_all
  from guard_kept [OF this] fo(3,4)
  show k: "giSt_dev w2 = 1 \<and> giSt_ino w2 = 3" by simp
  show m: "Mkdir ''src/sub/sub'' 0x41ED \<in> set (trace w2)" by (rule v(2))
  show s: "sys_stat w2 ''src/sub/'' = Some (stat_of (dir_node 3))" by (rule v(3))
  have val': "DirectoryValidate (add_slash (''src/sub/'' @ ''sub'')) (uninit_stat wo) wo
           = (0, fst (snd (DirectoryValidate ''src/sub/sub/'' (uninit_stat w) wo)), w2)"
    using val by (simp add: add_slash_def u)
  have s': "sys_stat w2 (add_slash (''src/'' @ ''sub'')) = Some (stat_of (dir_node 3))"
    using s by (simp add: add_slash_def)
  show e: "TimedCopy_entry ?rec 0 ''src/'' ''src/sub/'' (''sub'', 4) wo
           = (Some ERROR_TCPY_CIRC, w2)"
    by (rule entry_circular [OF _ _ _ _ _ _ val' s']) (simp_all add: k)
  show "TimedCopy_entries ?rec 0 ''src/'' ''src/sub/'' [(''.'', 4), (''..'', 4), (''sub'', 4)] wo
           = (Some ERROR_TCPY_CIRC, w2)"
    by (simp add: dots_tree1 e)
  then show "TimedCopy_directory ?rec 0 ''src/'' ''src/sub/'' w = (Some ERROR_TCPY_CIRC, w2)"
    unfolding TimedCopy_directory_def Let_def sys_opendir_def
    by (simp add: listing_tree1 [OF f] wo_def [symmetric] del: TimedCopy_entries.simps)
qed

lemma loop_run:
  "TimedCopy (Suc (Suc n)) 0 ''src/'' [] ''src/sub/'' [] loop_world
     = TimedCopy_directory (\<lambda>s d. TimedCopy (Suc n) 0 s [] d []) 0 ''src/'' ''src/sub/''
         (loop_world\<lparr>giSt_dev := 1, giSt_ino := 3\<rparr>)"
  using body_directory [where w = loop_world and sd = "''src/''" and dd = "''src/sub/''"
      and n = "Suc n" and iMode = 0 and df = "[]"]
  unfolding guard_loop by simp


lemma loop_world_facts:
  "fs loop_world = tree1" "faults loop_world = (\<lambda>c. None)"
  "giSt_dev loop_world = 0" "giSt_ino loop_world = 0" "trace loop_world = []"
  "fs (loop_world\<lparr>giSt_dev := 1, giSt_ino := 3\<rparr>) = tree1"
  "faults (loop_world\<lparr>giSt_dev := 1, giSt_ino := 3\<rparr>) = (\<lambda>c. None)"
  "uninit_stat (loop_world\<lparr>giSt_dev := 1, giSt_ino := 3\<rparr>) = uninit_stat loop_world"
  "giSt_dev (loop_world\<lparr>giSt_dev := 1, giSt_ino := 3\<rparr>) = 1"
  "giSt_ino (loop_world\<lparr>giSt_dev := 1, giSt_ino := 3\<rparr>) = 3"
  by (simp_all add: loop_world_def initial_world_def)

lemma run_abort:
  assumes "sd \<noteq> dd" "fst (TimedCopy_guard sd dd w) = 0"
    and "dir_listing (snd (TimedCopy_guard sd dd w)) sd = Some es"
    and "fst (TimedCopy_entries (\<lambda>s d. TimedCopy n iMode s [] d []) iMode sd dd es
               (log_event (Opendir sd) (snd (TimedCopy_guard sd dd w)))) = Some e" "e \<noteq> 0"
  shows "TimedCopy (Suc n) iMode sd [] dd df w
       = TimedCopy_entries (\<lambda>s d. TimedCopy n iMode s [] d []) iMode sd dd es
           (log_event (Opendir sd) (snd (TimedCopy_guard sd dd w)))"
  unfolding body_directory [OF assms(1,2)] by (rule directory_abort [OF assms(3-)])

text \<open>
  C7, amended. A guard that is recorded (not both 0) is the same after any call of
  \<^verbatim>\<open>TimedCopy\<close>, at any depth. From the unset guard, a call whose two directories
  pass the checks leaves the device and inode of its destination directory recorded.
  A call on a source directory whose device and inode are the recorded ones returns
  \<^verbatim>\<open>ERROR_TCPY_CIRC\<close> at once, with the state untouched: the call itself opens,
  reads and writes nothing. For the entry of such a directory, what has happened when
  the error comes back is what \<^verbatim>\<open>DirectoryValidate\<close> did for the destination
  (and what the entries before it did). The error then ends the run: the loop over the
  entries returns the result of the failing entry, the directory returns the result of
  the loop without a mirror cleanup, and so does the enclosing call of
  \<^verbatim>\<open>TimedCopy\<close>.
\<close>

theorem C7_traversal_guard:
  "(giSt_dev w \<noteq> 0 \<or> giSt_ino w \<noteq> 0 \<longrightarrow>
      giSt_dev (snd (TimedCopy n iMode sd sf dd df w)) = giSt_dev w
      \<and> giSt_ino (snd (TimedCopy n iMode sd sf dd df w)) = giSt_ino w)
   \<and> (giSt_dev w = 0 \<and> giSt_ino w = 0 \<and> sd \<noteq> dd \<and> fst (TimedCopy_guard sd dd w) = 0
        \<and> sys_stat w dd = Some st \<and> (st_dev st \<noteq> 0 \<or> st_ino st \<noteq> 0) \<longrightarrow>
      giSt_dev (snd (TimedCopy (Suc n) iMode sd sf dd df w)) = st_dev st
      \<and> giSt_ino (snd (TimedCopy (Suc n) iMode sd sf dd df w)) = st_ino st)
   \<and> (sd \<noteq> dd \<and> sys_stat w sd = Some ss \<and> st_mode ss AND S_IFDIR \<noteq> 0
        \<and> st_dev ss = giSt_dev w \<and> st_ino ss = giSt_ino w \<longrightarrow>
      TimedCopy (Suc n) iMode sd sf dd df w = (Some ERROR_TCPY_CIRC, w))
   \<and> (d_name \<noteq> ''.'' \<and> d_name \<noteq> ''..'' \<and> d_name \<noteq> [] \<and> int (length d_name) \<le> LNSZ
        \<and> d_type AND DT_DIR = DT_DIR \<and> sd \<noteq> dd
        \<and> DirectoryValidate (add_slash (dd @ d_name)) (uninit_stat w) w = (0, buf, wv)
        \<and> sys_stat wv (add_slash (sd @ d_name)) = Some ss \<and> st_mode ss AND S_IFDIR \<noteq> 0
        \<and> st_dev ss = giSt_dev wv \<and> st_ino ss = giSt_ino wv \<longrightarrow>
      TimedCopy_entry (\<lambda>s d. TimedCopy (Suc n) iMode s [] d []) iMode sd dd (d_name, d_type) w
        = (Some ERROR_TCPY_CIRC, wv))
   \<and> (fst (TimedCopy_entry recurse iMode sd dd entry w) = Some e \<and> e \<noteq> 0 \<longrightarrow>
      TimedCopy_entries recurse iMode sd dd (entry # rest) w
        = TimedCopy_entry recurse iMode sd dd entry w)
   \<and> (dir_listing w sd = Some es
        \<and> fst (TimedCopy_entries recurse iMode sd dd es (log_event (Opendir sd) w)) = Some e
        \<and> e \<noteq> 0 \<longrightarrow>
      TimedCopy_directory recurse iMode sd dd w
        = TimedCopy_entries recurse iMode sd dd es (log_event (Opendir sd) w))
   \<and> (sd \<noteq> dd \<and> fst (TimedCopy_guard sd dd w) = 0
        \<and> dir_listing (snd (TimedCopy_guard sd dd w)) sd = Some es
        \<and> fst (TimedCopy_entries (\<lambda>s d. TimedCopy n iMode s [] d []) iMode sd dd es
                  (log_event (Opendir sd) (snd (TimedCopy_guard sd dd w)))) = Some e
        \<and> e \<noteq> 0 \<longrightarrow>
      TimedCopy (Suc n) iMode sd [] dd df w
        = TimedCopy_entries (\<lambda>s d. TimedCopy n iMode s [] d []) iMode sd dd es
            (log_event (Opendir sd) (snd (TimedCopy_guard sd dd w))))"
proof -
  have a: "giSt_dev (snd (TimedCopy n iMode sd sf dd df w)) = giSt_dev w
      \<and> giSt_ino (snd (TimedCopy n iMode sd sf dd df w)) = giSt_ino w"
    if "giSt_dev w \<noteq> 0 \<or> giSt_ino w \<noteq> 0"
  proof -
    have "evolves (\<lambda>e. True) w (snd (TimedCopy n iMode sd sf dd df w))"
      by (rule evolves_TimedCopy [OF _ evolves_refl]) simp
    then show ?thesis using guard_kept that by blast
  qed
  have b: "giSt_dev (snd (TimedCopy (Suc n) iMode sd sf dd df w)) = st_dev st
      \<and> giSt_ino (snd (TimedCopy (Suc n) iMode sd sf dd df w)) = st_ino st"
    if "giSt_dev w = 0" "giSt_ino w = 0" "sd \<noteq> dd" "fst (TimedCopy_guard sd dd w) = 0"
      "sys_stat w dd = Some st" "st_dev st \<noteq> 0 \<or> st_ino st \<noteq> 0"
  proof -
    let ?wg = "w\<lparr>giSt_dev := st_dev st, giSt_ino := st_ino st\<rparr>"
    have g: "snd (TimedCopy_guard sd dd w) = ?wg"
      by (rule guard_result [OF that(4,5,1,2)])
    have "evolves (\<lambda>e. True) ?wg (snd (TimedCopy (Suc n) iMode sd sf dd df w))"
      using body_after_guard [OF that(3,4)] unfolding g .
    from guard_kept [OF this] that(6) show ?thesis by simp
  qed
  have c: "TimedCopy (Suc n) iMode sd sf dd df w = (Some ERROR_TCPY_CIRC, w)"
    if "sd \<noteq> dd" "sys_stat w sd = Some ss" "st_mode ss AND S_IFDIR \<noteq> 0"
      "st_dev ss = giSt_dev w" "st_ino ss = giSt_ino w"
    using that(1) guard_circular [OF that(2-)] by (simp add: TimedCopy_body_def)
  show ?thesis
    apply (intro conjI impI)
    subgoal using a by simp
    subgoal using a by simp
    subgoal using b by simp
    subgoal using b by simp
    subgoal using c by simp
    subgoal by (elim conjE, rule entry_circular)
    subgoal by (erule conjE, erule (1) entries_abort)
    subgoal by (elim conjE, erule (2) directory_abort)
    subgoal by (elim conjE, rule run_abort)
    done
qed

theorem C7_traversal_guard_witness:
  "giSt_dev loop_world = 0 \<and> giSt_ino loop_world = 0
   \<and> TimedCopy (Suc (Suc 0)) TCPY_MODE_COPY ''src/'' [] ''src/sub/'' [] loop_world
       = (Some ERROR_TCPY_CIRC, loop_made)
   \<and> giSt_dev loop_made = 1 \<and> giSt_ino loop_made = 3
   \<and> TimedCopy (Suc 0) TCPY_MODE_COPY ''src/sub/'' [] ''src/sub/sub/'' [] loop_made
       = (Some ERROR_TCPY_CIRC, loop_made)
   \<and> TimedCopy_entry (\<lambda>s d. TimedCopy (Suc 0) TCPY_MODE_COPY s [] d []) TCPY_MODE_COPY
         ''src/'' ''src/sub/'' (''sub'', DT_DIR) loop_opened
       = (Some ERROR_TCPY_CIRC, loop_made)
   \<and> TimedCopy_entries (\<lambda>s d. TimedCopy (Suc 0) TCPY_MODE_COPY s [] d []) TCPY_MODE_COPY
         ''src/'' ''src/sub/'' [(''sub'', DT_DIR), (''later'', DT_REG)] loop_opened
       = (Some ERROR_TCPY_CIRC, loop_made)"
proof -
  let ?rec = "\<lambda>s d. TimedCopy (Suc 0) 0 s [] d []"
  let ?es = "[(''.'', 4), (''..'', 4), (''sub'', 4)] :: (string \<times> 8 word) list"
  note f = loop_world_facts
  note d = loop_directory [OF f(6,7,9,10), unfolded f(8), folded loop_opened_def,
      folded loop_made_def]
  have g: "fst (TimedCopy_guard ''src/'' ''src/sub/'' loop_world) = 0"
    "snd (TimedCopy_guard ''src/'' ''src/sub/'' loop_world) = loop_world\<lparr>giSt_dev := 1, giSt_ino := 3\<rparr>"
    by (simp_all add: guard_loop)
  have v: "DirectoryValidate (add_slash (''src/sub/'' @ ''sub'')) (uninit_stat loop_opened)
             loop_opened
           = (0, fst (snd (DirectoryValidate ''src/sub/sub/'' (uninit_stat loop_world)
                             loop_opened)), loop_made)"
    using d(6) by (simp add: add_slash_def loop_opened_def f(8))
  have s: "sys_stat loop_made (add_slash (''src/'' @ ''sub'')) = Some (stat_of (dir_node 3))"
    "sys_stat loop_made ''src/sub/'' = Some (stat_of (dir_node 3))"
    using d(5) by (simp_all add: add_slash_def)
  have l: "dir_listing (snd (TimedCopy_guard ''src/'' ''src/sub/'' loop_world)) ''src/''
         = Some ?es"
    unfolding g by (rule listing_tree1 [OF f(6,7)])
  have en: "fst (TimedCopy_entries ?rec 0 ''src/'' ''src/sub/'' ?es
               (log_event (Opendir ''src/'')
                  (snd (TimedCopy_guard ''src/'' ''src/sub/'' loop_world)))) = Some ERROR_TCPY_CIRC"
    unfolding g loop_opened_def [symmetric] d(7) by simp
  note run = C7_traversal_guard [where w = loop_world and n = "Suc 0" and iMode = 0
      and sd = "''src/''" and sf = "[]" and dd = "''src/sub/''" and df = "[]"
      and st = "stat_of (dir_node 3)" and es = ?es and e = ERROR_TCPY_CIRC]
  note call = C7_traversal_guard [where w = loop_made and n = 0 and iMode = 0
      and sd = "''src/sub/''" and sf = "[]" and dd = "''src/sub/sub/''" and df = "[]"
      and ss = "stat_of (dir_node 3)"]
  note ent = C7_traversal_guard [where w = loop_opened and n = 0 and iMode = 0
      and sd = "''src/''" and dd = "''src/sub/''" and d_name = "''sub''" and d_type = DT_DIR
      and wv = loop_made and ss = "stat_of (dir_node 3)" and recurse = ?rec
      and entry = "(''sub'', DT_DIR)" and rest = "[(''later'', DT_REG)]" and e = ERROR_TCPY_CIRC
      and buf = "fst (snd (DirectoryValidate ''src/sub/sub/'' (uninit_stat loop_world)
                             loop_opened))"]
  have 1: "TimedCopy (Suc (Suc 0)) 0 ''src/'' [] ''src/sub/'' [] loop_world
       = (Some ERROR_TCPY_CIRC, loop_made)"
    using run g(1) l en unfolding g(2) loop_opened_def [symmetric] d(7) by simp
  have 2: "TimedCopy (Suc 0) 0 ''src/sub/'' [] ''src/sub/sub/'' [] loop_made
       = (Some ERROR_TCPY_CIRC, loop_made)"
    using call s(2) d(4) by simp
  have 3: "TimedCopy_entry ?rec 0 ''src/'' ''src/sub/'' (''sub'', DT_DIR) loop_opened
       = (Some ERROR_TCPY_CIRC, loop_made)"
    using ent v s(1) d(4) by simp
  have 4: "TimedCopy_entries ?rec 0 ''src/'' ''src/sub/'' [(''sub'', DT_DIR), (''later'', DT_REG)]
             loop_opened = (Some ERROR_TCPY_CIRC, loop_made)"
    using ent 3 by simp
  show ?thesis using 1 2 3 4 d(4) f(3,4) by simp
qed

subsection \<open>A source that equals an absent destination\<close>

lemma quiet_untouched: "list_all quiet ev \<Longrightarrow> touched ev = {}"
  by (induction ev) (auto simp: touched_def quiet_def split: event.splits)

lemma evolves_quiet:
  assumes "evolves quiet w w'"
  shows "map_of (fs w') = map_of (fs w)"
    and "\<exists>ev. trace w' = trace w @ ev \<and> list_all quiet ev"
  using assms quiet_untouched unfolding evolves_def by (auto intro!: ext)

lemma sys_stat_same: "map_of (fs w') (key_of p) = map_of (fs w) (key_of p) \<Longrightarrow> sys_stat w' p = sys_stat w p"
  by (simp add: sys_stat_def)

lemma count_returns: "\<not> giPauseAfterVerif w \<Longrightarrow> fst (TimedCopyFile_count w) = Some 0"
  by (simp add: TimedCopyFile_count_def Let_def)

lemma regular_not_dir: "(m :: mode_t) AND S_IFREG \<noteq> 0 \<Longrightarrow> \<not> is_dir m"
proof
  assume a: "m AND S_IFREG \<noteq> 0" and d: "is_dir m"
  from a have "bit m 15"
    using and_exp_eq_0_iff_not_bit [of m 15] by simp
  then have "bit (m AND S_IFMT) 15" by (simp add: bit_simps)
  moreover have "\<not> bit (S_IFDIR :: mode_t) 15" by simp
  ultimately show False using d by (simp add: is_dir_def)
qed

lemma stat_regular:
  assumes "sys_stat w p = Some st" "st_mode st AND S_IFREG \<noteq> 0"
  shows "\<exists>n. map_of (fs w) (key_of p) = Some n \<and> st = stat_of n \<and> p \<noteq> [] \<and> last p \<noteq> CHR ''/''
             \<and> \<not> is_dir (n_mode n)"
proof -
  from assms(1) obtain n where n: "map_of (fs w) (key_of p) = Some n" "st = stat_of n" "p \<noteq> []"
    "\<not> (last p = CHR ''/'' \<and> \<not> is_dir (n_mode n))"
    by (auto simp: sys_stat_def split: if_splits option.splits)
  have "\<not> is_dir (n_mode n)"
    using assms(2) n(2) regular_not_dir [of "n_mode n"] by (simp add: stat_of_def)
  then show ?thesis using n by blast
qed

lemma unlink_regular:
  assumes "sys_stat w p = Some st" "st_mode st AND S_IFREG \<noteq> 0" "faults w (SysUnlink p) = None"
  shows "fst (sys_unlink p w) = None"
    and "sys_stat (snd (sys_unlink p w)) p = None"
    and "trace (snd (sys_unlink p w)) = trace w @ [Unlink p]"
    and "giPauseAfterVerif (snd (sys_unlink p w)) = giPauseAfterVerif w"
    and "\<And>q. sys_stat w q = None \<Longrightarrow> sys_stat (snd (sys_unlink p w)) q = None"
proof -
  from stat_regular [OF assms(1,2)] obtain n where
    n: "map_of (fs w) (key_of p) = Some n" "p \<noteq> []" "last p \<noteq> CHR ''/''" "\<not> is_dir (n_mode n)"
    by blast
  have u: "sys_unlink p w = (None, (log_event (Unlink p) w)\<lparr>fs := fs_remove (key_of p) (fs w)\<rparr>)"
    using n assms(3) by (simp add: sys_unlink_def Let_def)
  show "fst (sys_unlink p w) = None" by (simp add: u)
  show "sys_stat (snd (sys_unlink p w)) p = None"
    by (simp add: u sys_stat_def map_of_fs_remove)
  show "trace (snd (sys_unlink p w)) = trace w @ [Unlink p]"
    by (simp add: u log_event_def)
  show "giPauseAfterVerif (snd (sys_unlink p w)) = giPauseAfterVerif w"
    by (simp add: u log_event_def)
  show "sys_stat (snd (sys_unlink p w)) q = None" if "sys_stat w q = None" for q
    using that by (auto simp add: u sys_stat_def map_of_fs_remove log_event_def
        split: option.splits if_splits)
qed


lemma stat_log [simp]:
  "sys_stat (log_event e w) p = sys_stat w p" "sys_stat (EchoPrint s w) p = sys_stat w p"
  "sys_stat (w\<lparr>gszErr := x\<rparr>) p = sys_stat w p"
  by (simp_all add: sys_stat_def log_event_def EchoPrint_def)

lemma unlink_fs:
  "fs (snd (sys_unlink p w)) = fs w \<or> fs (snd (sys_unlink p w)) = fs_remove (key_of p) (fs w)"
proof (cases "faults w (SysUnlink p)")
  case (Some e)
  then show ?thesis by (simp add: sys_unlink_def Let_def log_event_def)
next
  case None
  note f = this
  show ?thesis
  proof (cases "map_of (fs w) (key_of p)")
    case None
    then show ?thesis using f by (simp add: sys_unlink_def Let_def log_event_def)
  next
    case (Some n)
    then show ?thesis
      using f
      by (cases "p = [] \<or> last p = CHR ''/'' \<or> is_dir (n_mode n)")
         (simp_all add: sys_unlink_def Let_def log_event_def)
  qed
qed

lemma unlink_keeps_absent:
  assumes "sys_stat w q = None"
  shows "sys_stat (snd (sys_unlink p w)) q = None"
proof -
  have "map_of (fs (snd (sys_unlink p w))) (key_of q) = None
      \<or> map_of (fs (snd (sys_unlink p w))) (key_of q) = map_of (fs w) (key_of q)"
    using unlink_fs [of p w] by (auto simp: map_of_fs_remove)
  then show ?thesis
  proof
    assume "map_of (fs (snd (sys_unlink p w))) (key_of q) = None"
    then show ?thesis by (simp add: sys_stat_def)
  next
    assume "map_of (fs (snd (sys_unlink p w))) (key_of q) = map_of (fs w) (key_of q)"
    then have "sys_stat (snd (sys_unlink p w)) q = sys_stat w q" by (simp add: sys_stat_def)
    then show ?thesis using assms by simp
  qed
qed

lemma probe_absent:
  assumes "sys_stat w src = Some st" "st_mode st AND S_IFREG \<noteq> 0" "sys_stat w dst = None"
  shows "TimedCopyFile_probe src dst w
       = (\<lparr>iErr = 0, iExistDest = False, sStatSource = st,
            sStatDest = (uninit_stat w)\<lparr>st_size := 0, st_mtim_sec := 0, st_mtim_nsec := 0\<rparr>,
            iSourceChecksum = 0, iDestChecksum = 0\<rparr>, w)"
  using assms by (simp add: TimedCopyFile_probe_def FilenameExist_def Let_def)

lemma replicate_skips:
  assumes "TimedCopyFile_probe src dst w = (l, w)" "iErr l = 0" "\<not> TimedCopyFile_differs l"
    "st_size (sStatSource l) = 0"
  shows "TimedCopyFile_replicate src dst w = (Some l, w)"
  using assms
  by (simp add: TimedCopyFile_replicate_def TimedCopyFile_compare_def TimedCopyFile_update_def)

lemma count_quiet:
  assumes "\<not> giPauseAfterVerif w1"
  shows "fst (TimedCopyFile_count w1) = Some 0"
    and "map_of (fs (snd (TimedCopyFile_count w1))) = map_of (fs w1)"
    and "\<exists>ev. trace (snd (TimedCopyFile_count w1)) = trace w1 @ ev \<and> list_all quiet ev"
proof -
  have "evolves quiet w1 (snd (TimedCopyFile_count w1))"
    by (rule evolves_count [OF evolves_refl])
  from evolves_quiet [OF this]
  show "map_of (fs (snd (TimedCopyFile_count w1))) = map_of (fs w1)"
    and "\<exists>ev. trace (snd (TimedCopyFile_count w1)) = trace w1 @ ev \<and> list_all quiet ev"
    by simp_all
  show "fst (TimedCopyFile_count w1) = Some 0" by (rule count_returns [OF assms])
qed

lemma sys_stat_fs: "map_of (fs w') = map_of (fs w) \<Longrightarrow> sys_stat w' p = sys_stat w p"
  by (simp add: sys_stat_def)

lemma skipped_file:
  fixes iMode :: int
  assumes rep: "TimedCopyFile_replicate src dst w = (Some l, w)" "iErr l = 0"
    and np: "\<not> giPauseAfterVerif w"
  defines "w' \<equiv> snd (TimedCopyFile iMode src dst w)"
  shows "iMode \<noteq> TCPY_MODE_DEL \<or> giTestRun w \<Longrightarrow>
           fst (TimedCopyFile iMode src dst w) = Some 0 \<and> map_of (fs w') = map_of (fs w)
           \<and> (\<exists>ev. trace w' = trace w @ ev \<and> list_all quiet ev)"
    and "iMode = TCPY_MODE_DEL \<Longrightarrow> \<not> giTestRun w \<Longrightarrow> sys_stat w src = Some st \<Longrightarrow>
         st_mode st AND S_IFREG \<noteq> 0 \<Longrightarrow> faults w (SysUnlink src) = None \<Longrightarrow>
           fst (TimedCopyFile iMode src dst w) = Some 0 \<and> sys_stat w' src = None
           \<and> (\<forall>q. sys_stat w q = None \<longrightarrow> sys_stat w' q = None)
           \<and> (\<exists>ev. trace w' = trace w @ Echo (''Delete '' @ StringShortner src (LNSZ - 80))
                        # Unlink src # ev \<and> list_all quiet ev)"
    and "\<forall>q. sys_stat w q = None \<longrightarrow> sys_stat w' q = None"
proof -
  let ?s = "''Delete '' @ StringShortner src (LNSZ - 80)"
  let ?w1 = "EchoPrint ?s w"
  have tc: "TimedCopyFile iMode src dst w
      = (let lw3 = TimedCopyFile_unlink_source iMode src dst l w
         in if iErr (fst lw3) = 0 then TimedCopyFile_count (snd lw3)
            else (Some (iErr (fst lw3)), snd lw3))"
    by (simp add: TimedCopyFile_def rep(1))
  have none: "\<forall>q. sys_stat w q = None \<longrightarrow> sys_stat (snd (sys_unlink src ?w1)) q = None"
    by (simp add: unlink_keeps_absent)
  show a: "fst (TimedCopyFile iMode src dst w) = Some 0 \<and> map_of (fs w') = map_of (fs w)
           \<and> (\<exists>ev. trace w' = trace w @ ev \<and> list_all quiet ev)"
    if "iMode \<noteq> TCPY_MODE_DEL \<or> giTestRun w"
  proof (cases "iMode = TCPY_MODE_DEL")
    case False
    then have "TimedCopyFile iMode src dst w = TimedCopyFile_count w"
      unfolding tc by (simp add: TimedCopyFile_unlink_source_def rep(2))
    then show ?thesis unfolding w'_def using count_quiet [OF np] by simp
  next
    case True
    then have t: "TimedCopyFile iMode src dst w = TimedCopyFile_count ?w1"
      using that unfolding tc by (simp add: TimedCopyFile_unlink_source_def rep(2) Let_def)
    have "\<not> giPauseAfterVerif ?w1" using np by (simp add: EchoPrint_def log_event_def)
    from count_quiet [OF this] obtain ev where
      "fst (TimedCopyFile_count ?w1) = Some 0"
      "map_of (fs (snd (TimedCopyFile_count ?w1))) = map_of (fs ?w1)"
      "trace (snd (TimedCopyFile_count ?w1)) = trace ?w1 @ ev" "list_all quiet ev"
      by blast
    then have "fst (TimedCopyFile_count ?w1) = Some 0"
      "map_of (fs (snd (TimedCopyFile_count ?w1))) = map_of (fs w)"
      "trace (snd (TimedCopyFile_count ?w1)) = trace w @ (Echo ?s # ev)"
      "list_all quiet (Echo ?s # ev)"
      by (simp_all add: EchoPrint_def log_event_def quiet_def)
    then show ?thesis unfolding w'_def t by blast
  qed
  show b: "fst (TimedCopyFile iMode src dst w) = Some 0 \<and> sys_stat w' src = None
           \<and> (\<forall>q. sys_stat w q = None \<longrightarrow> sys_stat w' q = None)
           \<and> (\<exists>ev. trace w' = trace w @ Echo ?s # Unlink src # ev \<and> list_all quiet ev)"
    if "iMode = TCPY_MODE_DEL" "\<not> giTestRun w" "sys_stat w src = Some st"
      "st_mode st AND S_IFREG \<noteq> 0" "faults w (SysUnlink src) = None"
  proof -
    let ?wu = "snd (sys_unlink src ?w1)"
    have h: "sys_stat ?w1 src = Some st" "faults ?w1 (SysUnlink src) = None"
      using that(3,5) by (simp, simp add: EchoPrint_def log_event_def)
    note u = unlink_regular [OF h(1) that(4) h(2)]
    have t: "TimedCopyFile iMode src dst w = TimedCopyFile_count ?wu"
      using that(1,2) u(1) unfolding tc
      by (simp add: TimedCopyFile_unlink_source_def rep(2) Let_def)
    have "\<not> giPauseAfterVerif ?wu"
      using np u(4) by (simp add: EchoPrint_def log_event_def)
    from count_quiet [OF this] obtain ev where c:
      "fst (TimedCopyFile_count ?wu) = Some 0"
      "map_of (fs (snd (TimedCopyFile_count ?wu))) = map_of (fs ?wu)"
      "trace (snd (TimedCopyFile_count ?wu)) = trace ?wu @ ev" "list_all quiet ev"
      by blast
    have tr: "trace (snd (TimedCopyFile_count ?wu)) = trace w @ Echo ?s # Unlink src # ev"
      unfolding c(3) u(3) by (simp add: EchoPrint_def log_event_def)
    have eq: "sys_stat (snd (TimedCopyFile_count ?wu)) q = sys_stat ?wu q" for q
      by (rule sys_stat_fs [OF c(2)])
    have 1: "sys_stat (snd (TimedCopyFile_count ?wu)) src = None"
      unfolding eq by (rule u(2))
    have 2: "\<forall>q. sys_stat w q = None \<longrightarrow> sys_stat (snd (TimedCopyFile_count ?wu)) q = None"
      unfolding eq by (rule none)
    have 3: "\<exists>ev. trace (snd (TimedCopyFile_count ?wu)) = trace w @ Echo ?s # Unlink src # ev
                \<and> list_all quiet ev"
      using tr c(4) by blast
    show ?thesis
      unfolding w'_def t using c(1) 1 2 3 by (intro conjI)
  qed
  show "\<forall>q. sys_stat w q = None \<longrightarrow> sys_stat w' q = None"
  proof (cases "iMode \<noteq> TCPY_MODE_DEL \<or> giTestRun w")
    case True
    from a [OF this] have "map_of (fs w') = map_of (fs w)" by simp
    then have "sys_stat w' q = sys_stat w q" for q
      by (rule sys_stat_fs)
    then show ?thesis by simp
  next
    case False
    let ?r = "sys_unlink src ?w1"
    show ?thesis
    proof (cases "fst ?r")
      case None
      then have t: "TimedCopyFile iMode src dst w = TimedCopyFile_count (snd ?r)"
        using False unfolding tc by (simp add: TimedCopyFile_unlink_source_def rep(2) Let_def)
      have "evolves quiet (snd ?r) (snd (TimedCopyFile_count (snd ?r)))"
        by (rule evolves_count [OF evolves_refl])
      from evolves_quiet(1) [OF this]
      have "sys_stat (snd (TimedCopyFile_count (snd ?r))) q = sys_stat (snd ?r) q" for q
        by (rule sys_stat_fs)
      then show ?thesis
        unfolding w'_def t using none by simp
    next
      case (Some e)
      then have "w' = (snd ?r)\<lparr>gszErr := ''Failed to delete '' @ StringShortner dst (LNSZ - 80)
                                      @ '' (errno='' @ dec e @ '')''\<rparr>"
        unfolding w'_def tc using False
        by (simp add: TimedCopyFile_unlink_source_def rep(2) Let_def)
      then show ?thesis using none by simp
    qed
  qed
qed


text \<open>
  C10. When the destination does not exist, \<^verbatim>\<open>TimedCopyFile\<close> compares the
  source with a snapshot whose size and modification time are 0. For a source that is a
  regular file of size 0 with modification time (0 s, 0 ns), and with no pause due, the
  two are found equal (the checksums are both 0, as nothing is read), nothing is copied
  and the state after the comparison is the state before it. The destination still does
  not exist after the call and no call other than the \<^verbatim>\<open>unlink\<close> of the source is
  made; the call returns 0; and in the mode of \<^verbatim>\<open>-del\<close>, outside a test run and
  when \<^verbatim>\<open>unlink\<close> does not fail, the source is deleted.
\<close>

theorem C10_empty_epoch_source_is_skipped:
  assumes "sys_stat w szSource = Some st" "st_mode st AND S_IFREG \<noteq> 0"
    and "st_size st = 0" "st_mtim_sec st = 0" "st_mtim_nsec st = 0"
    and "sys_stat w szDest = None" "\<not> giPauseAfterVerif w"
  shows "\<not> iExistDest (fst (TimedCopyFile_probe szSource szDest w))
    \<and> st_size (sStatDest (fst (TimedCopyFile_probe szSource szDest w))) = 0
    \<and> st_mtim_sec (sStatDest (fst (TimedCopyFile_probe szSource szDest w))) = 0
    \<and> st_mtim_nsec (sStatDest (fst (TimedCopyFile_probe szSource szDest w))) = 0
    \<and> \<not> TimedCopyFile_differs (fst (TimedCopyFile_probe szSource szDest w))
    \<and> TimedCopyFile_replicate szSource szDest w
        = (Some (fst (TimedCopyFile_probe szSource szDest w)), w)
    \<and> sys_stat (snd (TimedCopyFile iMode szSource szDest w)) szDest = None
    \<and> (iMode \<noteq> TCPY_MODE_DEL \<or> giTestRun w \<longrightarrow>
          fst (TimedCopyFile iMode szSource szDest w) = Some 0
          \<and> map_of (fs (snd (TimedCopyFile iMode szSource szDest w))) = map_of (fs w)
          \<and> (\<exists>ev. trace (snd (TimedCopyFile iMode szSource szDest w)) = trace w @ ev
                  \<and> list_all quiet ev))
    \<and> (iMode = TCPY_MODE_DEL \<and> \<not> giTestRun w \<and> faults w (SysUnlink szSource) = None \<longrightarrow>
          fst (TimedCopyFile iMode szSource szDest w) = Some 0
          \<and> sys_stat (snd (TimedCopyFile iMode szSource szDest w)) szSource = None
          \<and> (\<exists>ev. trace (snd (TimedCopyFile iMode szSource szDest w))
                      = trace w @ Echo (''Delete '' @ StringShortner szSource (LNSZ - 80))
                          # Unlink szSource # ev
                  \<and> list_all quiet ev))"
proof -
  let ?l = "\<lparr>iErr = 0, iExistDest = False, sStatSource = st,
            sStatDest = (uninit_stat w)\<lparr>st_size := 0, st_mtim_sec := 0, st_mtim_nsec := 0\<rparr>,
            iSourceChecksum = 0, iDestChecksum = 0\<rparr>"
  have p: "TimedCopyFile_probe szSource szDest w = (?l, w)"
    by (rule probe_absent [OF assms(1,2,6)])
  have d: "\<not> TimedCopyFile_differs ?l"
    using assms(3-5) by (simp add: TimedCopyFile_differs_def)
  have r: "TimedCopyFile_replicate szSource szDest w = (Some ?l, w)"
    by (rule replicate_skips [OF p _ d]) (simp_all add: assms(3))
  note s = skipped_file [OF r _ assms(7), of iMode, simplified]
  have 1: "sys_stat (snd (TimedCopyFile iMode szSource szDest w)) szDest = None"
    using s(3) assms(6) by blast
  have 2: "fst (TimedCopyFile iMode szSource szDest w) = Some 0
          \<and> map_of (fs (snd (TimedCopyFile iMode szSource szDest w))) = map_of (fs w)
          \<and> (\<exists>ev. trace (snd (TimedCopyFile iMode szSource szDest w)) = trace w @ ev
                  \<and> list_all quiet ev)"
    if "iMode \<noteq> TCPY_MODE_DEL \<or> giTestRun w"
    using s(1) that by blast
  have 3: "fst (TimedCopyFile iMode szSource szDest w) = Some 0
          \<and> sys_stat (snd (TimedCopyFile iMode szSource szDest w)) szSource = None
          \<and> (\<exists>ev. trace (snd (TimedCopyFile iMode szSource szDest w))
                      = trace w @ Echo (''Delete '' @ StringShortner szSource (LNSZ - 80))
                          # Unlink szSource # ev
                  \<and> list_all quiet ev)"
    if "iMode = TCPY_MODE_DEL" "\<not> giTestRun w" "faults w (SysUnlink szSource) = None"
    using skipped_file(2) [OF r _ assms(7) that(1,2) assms(1,2) that(3)] by simp
  show ?thesis
    unfolding p fst_conv
    apply (intro conjI impI)
    subgoal by simp
    subgoal by simp
    subgoal by simp
    subgoal by simp
    subgoal by (rule d)
    subgoal by (rule r)
    subgoal by (rule 1)
    subgoal using 2 by simp
    subgoal using 2 by simp
    subgoal using 2 by simp
    subgoal using 3 by simp
    subgoal using 3 by simp
    subgoal using 3 by simp
    done
qed

theorem C10_empty_epoch_witness:
  "sys_stat epoch_world ''e'' \<noteq> None \<and> sys_stat epoch_world ''g'' = None
   \<and> fst (TimedCopyFile TCPY_MODE_DEL ''e'' ''g'' epoch_world) = Some 0
   \<and> sys_stat (snd (TimedCopyFile TCPY_MODE_DEL ''e'' ''g'' epoch_world)) ''e'' = None
   \<and> sys_stat (snd (TimedCopyFile TCPY_MODE_DEL ''e'' ''g'' epoch_world)) ''g'' = None
   \<and> fst (TimedCopyFile TCPY_MODE_COPY ''e'' ''g'' epoch_world) = Some 0
   \<and> sys_stat (snd (TimedCopyFile TCPY_MODE_COPY ''e'' ''g'' epoch_world)) ''g'' = None"
proof -
  let ?st = "\<lparr>st_mode = 0x81A4, st_dev = 1, st_ino = 9, st_size = 0, st_mtim_sec = 0,
              st_mtim_nsec = 0\<rparr>"
  have h: "sys_stat epoch_world ''e'' = Some ?st" "sys_stat epoch_world ''g'' = None"
    "\<not> giPauseAfterVerif epoch_world" "\<not> giTestRun epoch_world"
    "faults epoch_world (SysUnlink ''e'') = None"
    by (simp_all add: epoch_world_def initial_world_def sys_stat_def key_of_def stat_of_def
        is_dir_def)
  have m: "st_mode ?st AND S_IFREG \<noteq> 0" "st_size ?st = 0" "st_mtim_sec ?st = 0"
    "st_mtim_nsec ?st = 0"
    by simp_all
  note del = C10_empty_epoch_source_is_skipped [OF h(1) m h(2,3), of TCPY_MODE_DEL]
  note cpy = C10_empty_epoch_source_is_skipped [OF h(1) m h(2,3), of TCPY_MODE_COPY]
  show ?thesis
    using del cpy h by simp
qed

subsection \<open>The deletion of the source\<close>











lemma sys_reads_short: "length dat < LNBIGBUFFER \<Longrightarrow> sys_reads dat = [dat]"
  by (simp add: sys_reads_def)

lemmas file_defs =
  TimedCopyFile_def TimedCopyFile_unlink_source_def TimedCopyFile_count_def
  TimedCopyFile_replicate_def TimedCopyFile_probe_def FilenameExist_def sys_stat_def
  key_of_def is_dir_def stat_of_def Let_def StringShortner_def
  TimedCopyFile_compare_def TimedCopyFile_update_def TimedCopyFile_differs_def
  TimedCopyFile_delete_def TimedCopyFile_diffline_def TimedCopyFile_copy_def EchoPrint_def
  log_event_def TimedCopyFile_transfer_def sys_open_read_def file_bytes_def sys_creat_def
  new_node_def map_of_fs_put map_of_fs_remove sys_reads_short TimedCopyFile_iter_def
  TimedCopyFile_write_def TimedCopyFile_slowdown_def TimedCopyFile_delay_def NanoTime_def
  NanoTime_of_def sys_write_def TimedCopyFile_timing_def KeyboardCheck_def
  TimedCopyFile_check_def TimedCopyFile_retime_def sys_utimens_def
  TimedCopyFile_verify_def FilenameChecksum_def TimedCopyFile_discard_def sys_unlink_def
  ChecksumStep_def








subsection \<open>The mirror cleanup\<close>

lemma directory_mirror:
  assumes "dir_listing w sd = Some es"
    and "TimedCopy_entries recurse TCPY_MODE_MIRROR sd dd es (log_event (Opendir sd) w)
           = (Some 0, w1)"
    and "dir_listing w1 dd = Some es'"
  shows "TimedCopy_directory recurse TCPY_MODE_MIRROR sd dd w
       = (Some 0, TimedCopy_mirror sd dd es' (log_event (Opendir dd) w1))"
  using assms by (simp add: TimedCopy_directory_def sys_opendir_def)

lemma exist_after_unlink:
  assumes "\<not> fst (FilenameExist w p b)"
  shows "\<not> fst (FilenameExist (snd (sys_unlink q w)) p b')"
proof -
  have "map_of (fs (snd (sys_unlink q w))) (key_of p) = None
      \<or> map_of (fs (snd (sys_unlink q w))) (key_of p) = map_of (fs w) (key_of p)"
    using unlink_fs [of q w] by (auto simp: map_of_fs_remove)
  then have "sys_stat (snd (sys_unlink q w)) p = None
      \<or> sys_stat (snd (sys_unlink q w)) p = sys_stat w p"
    by (auto simp: sys_stat_def)
  then show ?thesis
    using assms by (auto simp: FilenameExist_def split: option.splits)
qed

lemma exist_log [simp]:
  "fst (FilenameExist (log_event e w) p b) = fst (FilenameExist w p b)"
  "fst (FilenameExist (EchoPrint s w) p b) = fst (FilenameExist w p b)"
  by (simp_all add: FilenameExist_def)

lemma exist_buf: "fst (FilenameExist w p b) = fst (FilenameExist w p b')"
  by (simp add: FilenameExist_def split: option.splits)

lemma mirror_entry_cases:
  "TimedCopy_mirror_entry sd dd (name, t) w
     = (if t AND DT_REG = DT_REG \<and> \<not> fst (FilenameExist w (sd @ name) (uninit_stat w))
        then (if giTestRun w
              then EchoPrint (''Delete '' @ StringShortner (dd @ name) (LNSZ - 30)) w
              else (case fst (sys_unlink (dd @ name)
                               (EchoPrint (''Delete '' @ StringShortner (dd @ name) (LNSZ - 30)) w)) of
                      None \<Rightarrow> snd (sys_unlink (dd @ name)
                               (EchoPrint (''Delete '' @ StringShortner (dd @ name) (LNSZ - 30)) w))
                    | Some e \<Rightarrow> log_event (Warning (''WARNING: Failed to delete ''
                                    @ StringShortner (dd @ name) (LNSZ - 30)))
                                 (snd (sys_unlink (dd @ name)
                                   (EchoPrint (''Delete '' @ StringShortner (dd @ name) (LNSZ - 30)) w)))))
        else w)"
  by (cases "fst (sys_unlink (dd @ name)
               (EchoPrint (''Delete '' @ StringShortner (dd @ name) (LNSZ - 30)) w))")
     (simp_all add: TimedCopy_mirror_entry_def Let_def)

lemma unlink_trace: "trace (snd (sys_unlink p w)) = trace w @ [Unlink p]"
proof (cases "faults w (SysUnlink p)")
  case (Some e)
  then show ?thesis by (simp add: sys_unlink_def Let_def log_event_def)
next
  case None
  note f = this
  show ?thesis
  proof (cases "map_of (fs w) (key_of p)")
    case None
    then show ?thesis using f by (simp add: sys_unlink_def Let_def log_event_def)
  next
    case (Some n)
    then show ?thesis
      using f
      by (cases "p = [] \<or> last p = CHR ''/'' \<or> is_dir (n_mode n)")
         (simp_all add: sys_unlink_def Let_def log_event_def)
  qed
qed

lemma unlink_settings [simp]:
  "giTestRun (snd (sys_unlink p w)) = giTestRun w"
proof -
  have "evolves (\<lambda>e. True) w (snd (sys_unlink p w))"
    by (rule evolves_unlink [OF evolves_refl]) simp
  then show ?thesis using evolves_settings by blast
qed

lemma mirror_entry_step:
  shows "giTestRun (TimedCopy_mirror_entry sd dd (name, t) w) = giTestRun w"
    and "\<not> fst (FilenameExist w p b) \<Longrightarrow>
          \<not> fst (FilenameExist (TimedCopy_mirror_entry sd dd (name, t) w) p b')"
    and "\<exists>ev. trace (TimedCopy_mirror_entry sd dd (name, t) w) = trace w @ ev
            \<and> (t AND DT_REG = DT_REG \<and> \<not> fst (FilenameExist w (sd @ name) (uninit_stat w))
                 \<and> \<not> giTestRun w \<longrightarrow> Unlink (dd @ name) \<in> set ev)
            \<and> (\<forall>q. Unlink q \<in> set ev \<longrightarrow>
                   q = dd @ name \<and> t AND DT_REG = DT_REG
                   \<and> \<not> fst (FilenameExist w (sd @ name) (uninit_stat w)))"
proof -
  let ?w1 = "EchoPrint (''Delete '' @ StringShortner (dd @ name) (LNSZ - 30)) w"
  let ?u = "sys_unlink (dd @ name) ?w1"
  show "giTestRun (TimedCopy_mirror_entry sd dd (name, t) w) = giTestRun w"
    unfolding mirror_entry_cases by (cases "fst ?u") simp_all
  show "\<not> fst (FilenameExist (TimedCopy_mirror_entry sd dd (name, t) w) p b')"
    if "\<not> fst (FilenameExist w p b)"
  proof -
    have 0: "\<not> fst (FilenameExist w p b')" using that exist_buf by blast
    have 1: "\<not> fst (FilenameExist ?w1 p b')" using 0 by simp
    have 2: "\<not> fst (FilenameExist (snd ?u) p b')" by (rule exist_after_unlink [OF 1])
    show ?thesis
      unfolding mirror_entry_cases using 0 1 2 by (cases "fst ?u") simp_all
  qed
  have tu: "trace (snd ?u) = trace w @ [Echo (''Delete '' @ StringShortner (dd @ name) (LNSZ - 30)),
                                       Unlink (dd @ name)]"
    unfolding unlink_trace by (simp add: EchoPrint_def log_event_def)
  show "\<exists>ev. trace (TimedCopy_mirror_entry sd dd (name, t) w) = trace w @ ev
            \<and> (t AND DT_REG = DT_REG \<and> \<not> fst (FilenameExist w (sd @ name) (uninit_stat w))
                 \<and> \<not> giTestRun w \<longrightarrow> Unlink (dd @ name) \<in> set ev)
            \<and> (\<forall>q. Unlink q \<in> set ev \<longrightarrow>
                   q = dd @ name \<and> t AND DT_REG = DT_REG
                   \<and> \<not> fst (FilenameExist w (sd @ name) (uninit_stat w)))"
  proof (cases "t AND DT_REG = DT_REG \<and> \<not> fst (FilenameExist w (sd @ name) (uninit_stat w))")
    case False
    have "TimedCopy_mirror_entry sd dd (name, t) w = w"
      unfolding mirror_entry_cases by (rule if_not_P) (rule False)
    then show ?thesis using False by (intro exI [of _ "[]"]) simp
  next
    case True
    show ?thesis
    proof (cases "giTestRun w")
      case True
      with \<open>t AND DT_REG = DT_REG \<and> \<not> fst (FilenameExist w (sd @ name) (uninit_stat w))\<close>
      have "TimedCopy_mirror_entry sd dd (name, t) w = ?w1"
        unfolding mirror_entry_cases by simp
      then show ?thesis
        using True
        by (intro exI [of _ "[Echo (''Delete '' @ StringShortner (dd @ name) (LNSZ - 30))]"])
           (simp add: EchoPrint_def log_event_def)
    next
      case False
      note nt = this
      show ?thesis
      proof (cases "fst ?u")
        case None
        then have "TimedCopy_mirror_entry sd dd (name, t) w = snd ?u"
          unfolding mirror_entry_cases using True nt by simp
        then show ?thesis
          using True tu
          by (intro exI [of _ "[Echo (''Delete '' @ StringShortner (dd @ name) (LNSZ - 30)),
                                Unlink (dd @ name)]"]) simp
      next
        case (Some e)
        then have "TimedCopy_mirror_entry sd dd (name, t) w
            = log_event (Warning (''WARNING: Failed to delete ''
                                    @ StringShortner (dd @ name) (LNSZ - 30))) (snd ?u)"
          unfolding mirror_entry_cases using True nt by simp
        then show ?thesis
          using True tu
          by (intro exI [of _ "[Echo (''Delete '' @ StringShortner (dd @ name) (LNSZ - 30)),
                                Unlink (dd @ name),
                                Warning (''WARNING: Failed to delete ''
                                    @ StringShortner (dd @ name) (LNSZ - 30))]"])
             (simp add: log_event_def)
      qed
    qed
  qed
qed

lemma mirror_deletes:
  "\<exists>ev. trace (TimedCopy_mirror sd dd es w) = trace w @ ev
     \<and> (\<not> giTestRun w \<longrightarrow>
          (\<forall>(name, t) \<in> set es. t AND DT_REG = DT_REG
              \<and> \<not> fst (FilenameExist w (sd @ name) (uninit_stat w))
              \<longrightarrow> Unlink (dd @ name) \<in> set ev))
     \<and> (\<forall>q. Unlink q \<in> set ev \<longrightarrow> (\<exists>(name, t) \<in> set es. q = dd @ name \<and> t AND DT_REG = DT_REG))"
proof (induction es arbitrary: w)
  case Nil
  then show ?case by simp
next
  case (Cons entry es)
  obtain name t where e: "entry = (name, t)" by (cases entry)
  let ?w1 = "TimedCopy_mirror_entry sd dd (name, t) w"
  note st = mirror_entry_step [where sd = sd and dd = dd and name = name and t = t and w = w]
  from st(3) obtain ev1 where ev1: "trace ?w1 = trace w @ ev1"
    "t AND DT_REG = DT_REG \<and> \<not> fst (FilenameExist w (sd @ name) (uninit_stat w))
       \<and> \<not> giTestRun w \<longrightarrow> Unlink (dd @ name) \<in> set ev1"
    "\<forall>q. Unlink q \<in> set ev1 \<longrightarrow> q = dd @ name \<and> t AND DT_REG = DT_REG
                   \<and> \<not> fst (FilenameExist w (sd @ name) (uninit_stat w))"
    by blast
  from Cons.IH [of ?w1] obtain ev2 where ev2:
    "trace (TimedCopy_mirror sd dd es ?w1) = trace ?w1 @ ev2"
    "\<not> giTestRun ?w1 \<longrightarrow>
          (\<forall>(name, t) \<in> set es. t AND DT_REG = DT_REG
              \<and> \<not> fst (FilenameExist ?w1 (sd @ name) (uninit_stat ?w1))
              \<longrightarrow> Unlink (dd @ name) \<in> set ev2)"
    "\<forall>q. Unlink q \<in> set ev2 \<longrightarrow> (\<exists>(name, t) \<in> set es. q = dd @ name \<and> t AND DT_REG = DT_REG)"
    by blast
  have keep: "\<not> fst (FilenameExist ?w1 p (uninit_stat ?w1))"
    if "\<not> fst (FilenameExist w p (uninit_stat w))" for p
    using st(2) [OF that] .
  have 1: "trace (TimedCopy_mirror sd dd (entry # es) w) = trace w @ (ev1 @ ev2)"
    by (simp add: e ev1(1) ev2(1))
  have 2: "\<forall>(name, t) \<in> set (entry # es). t AND DT_REG = DT_REG
              \<and> \<not> fst (FilenameExist w (sd @ name) (uninit_stat w))
              \<longrightarrow> Unlink (dd @ name) \<in> set (ev1 @ ev2)"
    if "\<not> giTestRun w"
    using that ev1(2) ev2(2) keep st(1) by (auto simp: e)
  have 3: "\<forall>q. Unlink q \<in> set (ev1 @ ev2) \<longrightarrow>
             (\<exists>(name, t) \<in> set (entry # es). q = dd @ name \<and> t AND DT_REG = DT_REG)"
    using ev1(3) ev2(3) by (auto simp: e)
  show ?case using 1 2 3 by blast
qed


lemma single_file_events:
  assumes "sf \<noteq> []"
  shows "evolves (file_events (giTestRun w) iMode (sd @ sf) (dd @ df)) w
           (snd (TimedCopy (Suc n) iMode sd sf dd df w))"
proof -
  let ?P = "file_events (giTestRun w) iMode (sd @ sf) (dd @ df)"
  have g: "evolves ?P w (snd (TimedCopy_guard sd dd w))"
    by (rule evolves_TimedCopy_guard [OF evolves_refl])
  have 1: "evolves ?P w (snd (TimedCopyFile iMode (sd @ sf) (dd @ df) (snd (TimedCopy_guard sd dd w))))"
    by (rule evolves_TimedCopyFile [OF g])
  have 2: "evolves ?P w (snd (TimedCopyFile iMode (sd @ sf) (dd @ df) w))"
    by (rule evolves_TimedCopyFile [OF evolves_refl])
  have 3: "evolves ?P w (w\<lparr>gszErr := x\<rparr>)" for x
    by (rule evolves_fields(1) [OF evolves_refl])
  let ?r = "TimedCopy (Suc n) iMode sd sf dd df w"
  show ?thesis
  proof (cases "sd = dd")
    case False
    show ?thesis
    proof (cases "fst (TimedCopy_guard sd dd w) = 0")
      case True
      have "snd ?r = snd (TimedCopyFile iMode (sd @ sf) (dd @ df) (snd (TimedCopy_guard sd dd w)))"
        using assms False True by (simp add: TimedCopy_body_def Let_def)
      then show ?thesis using 1 by simp
    next
      case nz: False
      have "snd ?r = snd (TimedCopy_guard sd dd w)"
        using assms False nz by (simp add: TimedCopy_body_def Let_def)
      then show ?thesis using g by simp
    qed
  next
    case True
    show ?thesis
    proof (cases "sf = df")
      case False
      have "snd ?r = snd (TimedCopyFile iMode (sd @ sf) (dd @ df) w)"
        using assms True False by (simp add: TimedCopy_body_def Let_def)
      then show ?thesis using 2 by simp
    next
      case same: True
      have "snd ?r = w\<lparr>gszErr := ''Can't copy the '' @ StringShortner sf (LNSZ - 60)
                                 @ '' file on itself!''\<rparr>"
        using assms True same by (simp add: TimedCopy_body_def Let_def)
      then show ?thesis using 3 by simp
    qed
  qed
qed

lemma single_file_unlinks:
  assumes "sf \<noteq> []"
  shows "\<exists>ev. trace (snd (TimedCopy (Suc n) iMode sd sf dd df w)) = trace w @ ev
           \<and> (\<forall>q. Unlink q \<in> set ev \<longrightarrow>
                  q = dd @ df \<or> (iMode = TCPY_MODE_DEL \<and> q = sd @ sf))"
proof -
  from single_file_events [OF assms, of w iMode sd dd df n]
  obtain ev where ev: "trace (snd (TimedCopy (Suc n) iMode sd sf dd df w)) = trace w @ ev"
    "list_all (file_events (giTestRun w) iMode (sd @ sf) (dd @ df)) ev"
    unfolding evolves_def by blast
  have "q = dd @ df \<or> (iMode = TCPY_MODE_DEL \<and> q = sd @ sf)" if "Unlink q \<in> set ev" for q
  proof -
    have "file_events (giTestRun w) iMode (sd @ sf) (dd @ df) (Unlink q)"
      using that ev(2) by (simp add: list_all_iff)
    then show ?thesis by (simp add: file_events_def)
  qed
  then show ?thesis using ev(1) by blast
qed

lemma mirror_warning:
  assumes "t AND DT_REG = DT_REG" "\<not> fst (FilenameExist w (sd @ name) (uninit_stat w))"
    "\<not> giTestRun w"
    "fst (sys_unlink (dd @ name)
            (EchoPrint (''Delete '' @ StringShortner (dd @ name) (LNSZ - 30)) w)) = Some e"
  shows "TimedCopy_mirror_entry sd dd (name, t) w
       = log_event (Warning (''WARNING: Failed to delete ''
                               @ StringShortner (dd @ name) (LNSZ - 30)))
           (snd (sys_unlink (dd @ name)
                   (EchoPrint (''Delete '' @ StringShortner (dd @ name) (LNSZ - 30)) w)))"
  unfolding mirror_entry_cases using assms by simp

lemmas run_defs =
  file_defs TimedCopy_body_def TimedCopy_guard_def DirectoryExist_def TimedCopy_directory_def
  sys_opendir_def dir_listing_def dir_entry_def IFTODT_def TimedCopy_entry_def
  TimedCopy_mirror_entry_def fs_remove_def

lemma mirror_run:
  "fst (TimedCopy (Suc 0) TCPY_MODE_MIRROR ''src/'' [] ''dst/'' [] mirror_world) = Some 0"
  "trace (snd (TimedCopy (Suc 0) TCPY_MODE_MIRROR ''src/'' [] ''dst/'' [] mirror_world))
     = [Opendir ''src/'', Echo ''Verify src/a to dst/a'', OpenRead ''src/a'', OpenRead ''dst/a'',
        Opendir ''dst/'', Echo ''Delete dst/c'', Unlink ''dst/c'']"
  "map fst (fs (snd (TimedCopy (Suc 0) TCPY_MODE_MIRROR ''src/'' [] ''dst/'' [] mirror_world)))
     = [''src'', ''dst'', ''src/a'', ''dst/a'']"
  by (simp_all add: mirror_world_def initial_world_def file_node_def dir_node_def run_defs)

lemma locked_run:
  "fst (TimedCopy (Suc 0) TCPY_MODE_MIRROR ''src/'' [] ''dst/'' [] locked_world) = Some 0"
  "trace (snd (TimedCopy (Suc 0) TCPY_MODE_MIRROR ''src/'' [] ''dst/'' [] locked_world))
     = [Opendir ''src/'', Echo ''Verify src/a to dst/a'', OpenRead ''src/a'', OpenRead ''dst/a'',
        Opendir ''dst/'', Echo ''Delete dst/c'', Unlink ''dst/c'',
        Warning ''WARNING: Failed to delete dst/c'']"
  by (simp_all add: locked_world_def mirror_world_def initial_world_def file_node_def dir_node_def
      run_defs)

lemma single_run:
  "trace (snd (TimedCopy (Suc 0) TCPY_MODE_MIRROR ''src/'' ''a'' ''dst/'' ''a'' mirror_world))
     = [Echo ''Verify src/a to dst/a'', OpenRead ''src/a'', OpenRead ''dst/a'']"
  by (simp add: mirror_world_def initial_world_def file_node_def dir_node_def run_defs)


text \<open>
  C8. In the mode of \<^verbatim>\<open>-mirror\<close>, when the loop over the entries of the source
  directory has returned 0, the destination directory is opened and listed again, and
  the directory returns 0 with the state that the cleanup leaves, whatever the cleanup
  did. Outside a test run the cleanup calls \<^verbatim>\<open>unlink\<close> for every listed entry whose
  type has the bit of a regular file and whose name is not that of a regular file in the
  source, and for no other path than a listed entry of that type. When \<^verbatim>\<open>unlink\<close>
  fails, a warning is printed and the loop goes on. A call with an explicit source file
  unlinks nothing but its own destination (and, with \<^verbatim>\<open>-del\<close>, its source).
\<close>

theorem C8_mirror_cleanup:
  "(dir_listing w sd = Some es
      \<and> TimedCopy_entries recurse TCPY_MODE_MIRROR sd dd es (log_event (Opendir sd) w)
          = (Some 0, wp)
      \<and> dir_listing wp dd = Some es' \<longrightarrow>
    TimedCopy_directory recurse TCPY_MODE_MIRROR sd dd w
      = (Some 0, TimedCopy_mirror sd dd es' (log_event (Opendir dd) wp)))
   \<and> (\<exists>ev. trace (TimedCopy_mirror sd dd es' w) = trace w @ ev
          \<and> (\<not> giTestRun w \<longrightarrow>
               (\<forall>(name, t) \<in> set es'. t AND DT_REG = DT_REG
                   \<and> \<not> fst (FilenameExist w (sd @ name) (uninit_stat w))
                   \<longrightarrow> Unlink (dd @ name) \<in> set ev))
          \<and> (\<forall>q. Unlink q \<in> set ev \<longrightarrow>
                 (\<exists>(name, t) \<in> set es'. q = dd @ name \<and> t AND DT_REG = DT_REG)))
   \<and> (t AND DT_REG = DT_REG \<and> \<not> fst (FilenameExist w (sd @ name) (uninit_stat w))
        \<and> \<not> giTestRun w
        \<and> fst (sys_unlink (dd @ name)
                  (EchoPrint (''Delete '' @ StringShortner (dd @ name) (LNSZ - 30)) w)) = Some e
        \<longrightarrow>
      TimedCopy_mirror_entry sd dd (name, t) w
        = log_event (Warning (''WARNING: Failed to delete ''
                               @ StringShortner (dd @ name) (LNSZ - 30)))
            (snd (sys_unlink (dd @ name)
                    (EchoPrint (''Delete '' @ StringShortner (dd @ name) (LNSZ - 30)) w))))
   \<and> (sf \<noteq> [] \<longrightarrow>
        (\<exists>ev. trace (snd (TimedCopy (Suc n) iMode sd sf dd df w)) = trace w @ ev
            \<and> (\<forall>q. Unlink q \<in> set ev \<longrightarrow>
                   q = dd @ df \<or> (iMode = TCPY_MODE_DEL \<and> q = sd @ sf))))"
  apply (intro conjI impI)
  subgoal by (elim conjE, rule directory_mirror)
  subgoal by (rule mirror_deletes)
  subgoal by (elim conjE, rule mirror_warning)
  subgoal by (rule single_file_unlinks)
  done

theorem C8_mirror_cleanup_witness:
  "fst (TimedCopy (Suc 0) TCPY_MODE_MIRROR ''src/'' [] ''dst/'' [] mirror_world) = Some 0
   \<and> map fst (fs (snd (TimedCopy (Suc 0) TCPY_MODE_MIRROR ''src/'' [] ''dst/'' [] mirror_world)))
       = [''src'', ''dst'', ''src/a'', ''dst/a'']
   \<and> (\<exists>ev. trace (TimedCopy_mirror ''src/'' ''dst/''
                     [(''.'', DT_DIR), (''..'', DT_DIR), (''a'', DT_REG), (''c'', DT_REG)]
                     mirror_world) = trace mirror_world @ ev
          \<and> Unlink ''dst/c'' \<in> set ev \<and> Unlink ''dst/a'' \<notin> set ev)
   \<and> TimedCopy_mirror_entry ''src/'' ''dst/'' (''c'', DT_REG) locked_world
       = log_event (Warning ''WARNING: Failed to delete dst/c'')
           (snd (sys_unlink ''dst/c'' (EchoPrint ''Delete dst/c'' locked_world)))
   \<and> fst (TimedCopy (Suc 0) TCPY_MODE_MIRROR ''src/'' [] ''dst/'' [] locked_world) = Some 0
   \<and> (\<exists>ev. trace (snd (TimedCopy (Suc 0) TCPY_MODE_MIRROR ''src/'' ''a'' ''dst/'' ''a''
                           mirror_world)) = trace mirror_world @ ev
          \<and> Unlink ''dst/c'' \<notin> set ev)"
proof -
  let ?es = "[(''.'', DT_DIR), (''..'', DT_DIR), (''a'', DT_REG), (''c'', DT_REG)]
               :: (string \<times> 8 word) list"
  have h: "\<not> giTestRun mirror_world" "\<not> giTestRun locked_world"
    "\<not> fst (FilenameExist mirror_world (''src/'' @ ''c'') (uninit_stat mirror_world))"
    "fst (FilenameExist mirror_world (''src/'' @ ''a'') (uninit_stat mirror_world))"
    "\<not> fst (FilenameExist locked_world (''src/'' @ ''c'') (uninit_stat locked_world))"
    "fst (sys_unlink (''dst/'' @ ''c'')
            (EchoPrint (''Delete '' @ StringShortner (''dst/'' @ ''c'') (LNSZ - 30)) locked_world))
       = Some 13"
    "StringShortner (''dst/'' @ ''c'') (LNSZ - 30) = ''dst/c''"
    by (simp_all add: locked_world_def mirror_world_def initial_world_def file_node_def
        dir_node_def run_defs)
  note m = C8_mirror_cleanup [where w = mirror_world and sd = "''src/''" and dd = "''dst/''"
      and es' = ?es and sf = "''a''" and df = "''a''" and n = 0 and iMode = TCPY_MODE_MIRROR]
  note l = C8_mirror_cleanup [where w = locked_world and sd = "''src/''" and dd = "''dst/''"
      and name = "''c''" and t = DT_REG and e = 13]
  have ne: "''a'' \<noteq> []" by simp
  note m2 = m [THEN conjunct2, THEN conjunct1]
  note m4 = m [THEN conjunct2, THEN conjunct2, THEN conjunct2, THEN mp, OF ne]
  note l3 = l [THEN conjunct2, THEN conjunct2, THEN conjunct1, THEN mp]
  from m2 obtain ev where ev:
    "trace (TimedCopy_mirror ''src/'' ''dst/'' ?es mirror_world) = trace mirror_world @ ev"
    "\<not> giTestRun mirror_world \<longrightarrow>
       (\<forall>(name, t) \<in> set ?es. t AND DT_REG = DT_REG
           \<and> \<not> fst (FilenameExist mirror_world (''src/'' @ name) (uninit_stat mirror_world))
           \<longrightarrow> Unlink (''dst/'' @ name) \<in> set ev)"
    by blast
  have tr: "trace (TimedCopy_mirror ''src/'' ''dst/'' ?es mirror_world)
              = [Echo ''Delete dst/c'', Unlink ''dst/c'']"
    by (simp add: mirror_world_def initial_world_def file_node_def dir_node_def run_defs)
  have t0: "trace mirror_world = []" by (simp add: mirror_world_def initial_world_def)
  have 1: "\<exists>ev. trace (TimedCopy_mirror ''src/'' ''dst/'' ?es mirror_world) = trace mirror_world @ ev
          \<and> Unlink ''dst/c'' \<in> set ev \<and> Unlink ''dst/a'' \<notin> set ev"
    using ev h(1,3) tr t0 by auto
  have 2: "TimedCopy_mirror_entry ''src/'' ''dst/'' (''c'', DT_REG) locked_world
       = log_event (Warning ''WARNING: Failed to delete dst/c'')
           (snd (sys_unlink ''dst/c'' (EchoPrint ''Delete dst/c'' locked_world)))"
    using l3 h(2,5,6) unfolding h(7) by simp
  from m4 obtain ev' where ev':
    "trace (snd (TimedCopy (Suc 0) TCPY_MODE_MIRROR ''src/'' ''a'' ''dst/'' ''a'' mirror_world))
       = trace mirror_world @ ev'"
    "\<forall>q. Unlink q \<in> set ev' \<longrightarrow> q = ''dst/'' @ ''a'' \<or> (TCPY_MODE_MIRROR = TCPY_MODE_DEL \<and> q = ''src/'' @ ''a'')"
    by blast
  have 3: "\<exists>ev. trace (snd (TimedCopy (Suc 0) TCPY_MODE_MIRROR ''src/'' ''a'' ''dst/'' ''a''
                           mirror_world)) = trace mirror_world @ ev
          \<and> Unlink ''dst/c'' \<notin> set ev"
    using ev' by auto
  show ?thesis
    using 1 2 3 mirror_run(1,3) locked_run(1) by simp
qed

subsection \<open>A run into a subdirectory of the source\<close>

lemma nest_run:
  "fst (TimedCopy (Suc (Suc 0)) TCPY_MODE_COPY ''src/'' [] ''src/sub/'' [] nest_world)
     = Some ERROR_TCPY_CIRC"
  "trace (snd (TimedCopy (Suc (Suc 0)) TCPY_MODE_COPY ''src/'' [] ''src/sub/'' [] nest_world))
     = [Opendir ''src/'', Echo ''Copy src/a to src/sub/a'', OpenRead ''src/a'',
        Creat ''src/sub/a'' 0x81A4, Nanosleep 0 0, Write ''src/sub/a'' [1, 2, 3],
        Utimens ''src/sub/a'' 7 0, Echo ''Verify src/sub/a'', OpenRead ''src/sub/a'',
        Echo (''mkdir(src/sub/sub, Mode=0'' @ oct_nat 16877 @ '')''),
        Mkdir ''src/sub/sub'' 0x41ED]"
  "giSt_dev (snd (TimedCopy (Suc (Suc 0)) TCPY_MODE_COPY ''src/'' [] ''src/sub/'' [] nest_world))
     = 1"
  "giSt_ino (snd (TimedCopy (Suc (Suc 0)) TCPY_MODE_COPY ''src/'' [] ''src/sub/'' [] nest_world))
     = 3"
  by (simp_all add: nest_world_def initial_world_def file_node_def dir_node_def run_defs
      DirectoryValidate.simps DirectoryValidate_mkdir_def sys_mkdir_def add_slash_def
      stat_into_def scan_src_sub_sub)

text \<open>
  C7, as stated, fails for the run: the guard is tested at the start of the call for a
  directory, after the caller has handled the entries listed before it and after
  \<^verbatim>\<open>DirectoryValidate\<close> has made the destination of the call. In the run from
  \<^verbatim>\<open>src/\<close> to \<^verbatim>\<open>src/sub/\<close>, which starts with no guard recorded, the
  guard becomes the identity of \<^verbatim>\<open>src/sub\<close>. The run ends with
  \<^verbatim>\<open>ERROR_TCPY_CIRC\<close>, but only after the file \<^verbatim>\<open>src/sub/a\<close> has been
  created, written and read back, and the directory \<^verbatim>\<open>src/sub/sub\<close> made, in that
  very directory.
\<close>

theorem C7_circular_after_write_counterexample:
  "giSt_dev nest_world = 0 \<and> giSt_ino nest_world = 0 \<and> trace nest_world = []
   \<and> sys_stat nest_world ''src/sub/'' = Some (stat_of (dir_node 3))
   \<and> st_dev (stat_of (dir_node 3)) = 1 \<and> st_ino (stat_of (dir_node 3)) = 3
   \<and> fst (TimedCopy (Suc (Suc 0)) TCPY_MODE_COPY ''src/'' [] ''src/sub/'' [] nest_world)
       = Some ERROR_TCPY_CIRC
   \<and> giSt_dev (snd (TimedCopy (Suc (Suc 0)) TCPY_MODE_COPY ''src/'' [] ''src/sub/'' []
                        nest_world)) = 1
   \<and> giSt_ino (snd (TimedCopy (Suc (Suc 0)) TCPY_MODE_COPY ''src/'' [] ''src/sub/'' []
                        nest_world)) = 3
   \<and> trace (snd (TimedCopy (Suc (Suc 0)) TCPY_MODE_COPY ''src/'' [] ''src/sub/'' [] nest_world))
       = [Opendir ''src/'', Echo ''Copy src/a to src/sub/a'', OpenRead ''src/a'',
          Creat ''src/sub/a'' 0x81A4, Nanosleep 0 0, Write ''src/sub/a'' [1, 2, 3],
          Utimens ''src/sub/a'' 7 0, Echo ''Verify src/sub/a'', OpenRead ''src/sub/a'',
          Echo (''mkdir(src/sub/sub, Mode=0'' @ oct_nat 16877 @ '')''),
          Mkdir ''src/sub/sub'' 0x41ED]"
proof -
  have "giSt_dev nest_world = 0" "giSt_ino nest_world = 0" "trace nest_world = []"
    "sys_stat nest_world ''src/sub/'' = Some (stat_of (dir_node 3))"
    by (simp_all add: nest_world_def initial_world_def sys_stat_def key_of_def is_dir_def
        dir_node_def)
  then show ?thesis
    unfolding nest_run by simp
qed

end
